(* ===== verification/Edge_Prelude.thy ===== *)
theory Edge_Prelude
  imports Complex_Main "HOL-Library.Word" "HOL-Library.Monad_Syntax"
begin

unbundle bit_operations_syntax

text \<open>
  The material every component of the development shares: names for the machine integer types
  of the C++ sources, the partial operations of the language whose misuse is undefined
  behaviour (out-of-range vector access, modulo by zero, signed overflow), the runner that
  folds a stateful operation over a list of inputs, and reachability in a step relation.
  Undefined behaviour is the value \<^const>\<open>None\<close> of the option monad; exceptions are values of
  a sum type (\<open>Inl\<close> the exception).
\<close>

named_theorems run_simps \<open>unfolding rules of the runners that fold an operation over inputs\<close>
named_theorems vec_simps \<open>evaluation of checked vector accesses\<close>

type_synonym u8 = "8 word"
type_synonym u16 = "16 word"
type_synonym u32 = "32 word"
type_synonym u64 = "64 word"
type_synonym bytes = "u8 list"

subsection \<open>Partial operations of the language\<close>

definition vec_get :: "'a list \<Rightarrow> nat \<Rightarrow> 'a option" where
  "vec_get xs i = (if i < length xs then Some (xs ! i) else None)"

definition vec_set :: "'a list \<Rightarrow> nat \<Rightarrow> 'a \<Rightarrow> 'a list option" where
  "vec_set xs i v = (if i < length xs then Some (xs[i := v]) else None)"

definition size_mod :: "nat \<Rightarrow> nat \<Rightarrow> nat option" where
  "size_mod a b = (if b = 0 then None else Some (a mod b))"

definition INT_MAX :: int where
  "INT_MAX = 2147483647"

definition int_incr :: "int \<Rightarrow> int option" where
  "int_incr x = (if x < INT_MAX then Some (x + 1) else None)"

subsection \<open>Runners and reachability\<close>

fun run_op :: "('s \<Rightarrow> 'i \<Rightarrow> ('s \<times> 'o) option) \<Rightarrow> 's \<Rightarrow> 'i list \<Rightarrow> ('s \<times> 'o list) option" where
  "run_op f s [] = Some (s, [])"
| "run_op f s (x # xs) =
     (case f s x of
        None \<Rightarrow> None
      | Some (s', y) \<Rightarrow>
          (case run_op f s' xs of
             None \<Rightarrow> None
           | Some (s'', ys) \<Rightarrow> Some (s'', y # ys)))"

fun fold_opt :: "('s \<Rightarrow> 'x \<Rightarrow> 's option) \<Rightarrow> 's \<Rightarrow> 'x list \<Rightarrow> 's option" where
  "fold_opt f s [] = Some s"
| "fold_opt f s (x # xs) = (case f s x of None \<Rightarrow> None | Some s' \<Rightarrow> fold_opt f s' xs)"

inductive reach :: "('s \<Rightarrow> bool) \<Rightarrow> ('s \<Rightarrow> 's \<Rightarrow> bool) \<Rightarrow> 's \<Rightarrow> bool"
  for start :: "'s \<Rightarrow> bool" and step :: "'s \<Rightarrow> 's \<Rightarrow> bool" where
  reach_start: "start s \<Longrightarrow> reach start step s"
| reach_step: "reach start step s \<Longrightarrow> step s t \<Longrightarrow> reach start step t"

definition last_n :: "nat \<Rightarrow> 'a list \<Rightarrow> 'a list" where
  "last_n n xs = drop (length xs - n) xs"

text \<open>Elements between the head and the tail index of a ring of \<open>n\<close> slots.\<close>

definition ring_len :: "nat \<Rightarrow> nat \<Rightarrow> nat \<Rightarrow> nat" where
  "ring_len n h t = (if h \<le> t then t - h else t + n - h)"

subsection \<open>Shared lemmas\<close>

lemma vec_get_Some [vec_simps]: "i < length xs \<Longrightarrow> vec_get xs i = Some (xs ! i)"
  by (simp add: vec_get_def)

lemma vec_set_Some [vec_simps]: "i < length xs \<Longrightarrow> vec_set xs i v = Some (xs[i := v])"
  by (simp add: vec_set_def)

lemma vec_get_eq_Some: "vec_get xs i = Some v \<longleftrightarrow> i < length xs \<and> v = xs ! i"
  by (auto simp: vec_get_def)

lemma vec_set_eq_Some: "vec_set xs i v = Some ys \<longleftrightarrow> i < length xs \<and> ys = xs[i := v]"
  by (auto simp: vec_set_def)

lemma size_mod_Some [vec_simps]: "0 < b \<Longrightarrow> size_mod a b = Some (a mod b)"
  by (simp add: size_mod_def)

lemma run_op_append [run_simps]:
  "run_op f s (xs @ ys) =
     (case run_op f s xs of
        None \<Rightarrow> None
      | Some (s', us) \<Rightarrow>
          (case run_op f s' ys of
             None \<Rightarrow> None
           | Some (s'', vs) \<Rightarrow> Some (s'', us @ vs)))"
  by (induction xs arbitrary: s) (auto split: option.splits prod.splits)

lemma run_op_length: "run_op f s xs = Some (s', ys) \<Longrightarrow> length ys = length xs"
  by (induction xs arbitrary: s ys) (auto split: option.splits)

lemma run_op_split:
  assumes "run_op f s xs = Some (t, as)" "run_op f s (xs @ ys) = Some (u, bs)"
  shows "run_op f t ys = Some (u, drop (length xs) bs)"
  using assms run_op_length [OF assms(1)] by (auto simp: run_op_append split: option.splits)

lemma run_op_invariant:
  assumes step: "\<And>s x s' y. I s \<Longrightarrow> f s x = Some (s', y) \<Longrightarrow> I s'"
  shows "I s \<Longrightarrow> run_op f s xs = Some (s', ys) \<Longrightarrow> I s'"
proof (induction xs arbitrary: s ys)
  case Nil
  then show ?case by simp
next
  case (Cons x xs)
  from Cons.prems(2) obtain t y zs where "f s x = Some (t, y)" "run_op f t xs = Some (s', zs)"
    by (auto split: option.splits)
  with Cons.IH step [OF Cons.prems(1)] show ?case by blast
qed

lemma reach_invariant:
  assumes "reach start step s"
    and "\<And>s. start s \<Longrightarrow> I s"
    and "\<And>s t. reach start step s \<Longrightarrow> I s \<Longrightarrow> step s t \<Longrightarrow> I t"
  shows "I s"
  using assms(1) by (induction rule: reach.induct) (auto intro: assms(2,3))

lemma last_n_append1:
  "0 < n \<Longrightarrow> last_n n (xs @ [x]) = last_n (n - 1) xs @ [x]"
  by (simp add: last_n_def Suc_diff_le)

lemma last_n_all: "length xs \<le> n \<Longrightarrow> last_n n xs = xs"
  by (simp add: last_n_def)

lemma length_last_n [simp]: "length (last_n n xs) = min n (length xs)"
  by (simp add: last_n_def)

text \<open>Overwriting the oldest slot of a full ring and advancing the head.\<close>

lemma ring_overwrite:
  assumes "h < length buf"
  shows "drop (Suc h mod length buf) (buf[h := x]) @ take (Suc h mod length buf) (buf[h := x]) =
    tl (drop h buf @ take h buf) @ [x]"
proof (cases "Suc h = length buf")
  case True
  then have "drop h buf = [buf ! h]" and "buf[h := x] = take h buf @ [x]"
    using assms by (simp_all add: Cons_nth_drop_Suc [symmetric] upd_conv_take_nth_drop)
  with True show ?thesis by simp
next
  case False
  with assms have "Suc h < length buf" by simp
  then show ?thesis
    by (simp add: Cons_nth_drop_Suc [symmetric] take_Suc_conv_app_nth)
qed

lemma tl_append_last_n:
  "length xs = n \<Longrightarrow> 0 < n \<Longrightarrow> last_n n (xs @ [x]) = tl xs @ [x]"
  by (simp add: last_n_def drop_Suc)

lemma last_n_last_n_append: "last_n n (last_n n xs @ ys) = last_n n (xs @ ys)"
  by (cases "length xs \<le> n") (auto simp: last_n_def drop_append add.commute)

lemma map_last_n: "map f (last_n n xs) = last_n n (map f xs)"
  by (simp add: last_n_def drop_map)

lemma takeWhile_rev_snoc:
  "takeWhile P (rev (xs @ [x])) = (if P x then x # takeWhile P (rev xs) else [])"
  by simp

lemma fold_opt_append:
  "fold_opt f s (xs @ ys) = (case fold_opt f s xs of None \<Rightarrow> None | Some s' \<Rightarrow> fold_opt f s' ys)"
  by (induction xs arbitrary: s) (auto split: option.splits)

lemma fold_opt_invariant:
  assumes "\<And>s x s'. I s \<Longrightarrow> f s x = Some s' \<Longrightarrow> I s'" "I s" "fold_opt f s xs = Some s'"
  shows "I s'"
  using assms(2,3)
proof (induction xs arbitrary: s)
  case (Cons x xs)
  then obtain t where "f s x = Some t" "fold_opt f t xs = Some s'" by (auto split: option.splits)
  with Cons.IH [of t] assms(1) [OF Cons.prems(1)] show ?case by blast
qed simp

named_theorems ring_simps \<open>index arithmetic in a ring\<close>

lemma Suc_mod_ring: "t < n \<Longrightarrow> Suc t mod n = (if Suc t = n then 0 else Suc t)"
  by auto

lemma ring_len_less [ring_simps]: "h < n \<Longrightarrow> t < n \<Longrightarrow> ring_len n h t < n"
  by (auto simp: ring_len_def)

lemma ring_len_0_iff [ring_simps]: "h < n \<Longrightarrow> t < n \<Longrightarrow> ring_len n h t = 0 \<longleftrightarrow> h = t"
  by (auto simp: ring_len_def)

lemma ring_full_iff: "h < n \<Longrightarrow> t < n \<Longrightarrow> Suc t mod n = h \<longleftrightarrow> Suc (ring_len n h t) = n"
  by (auto simp: ring_len_def Suc_mod_ring)

lemma ring_len_push:
  "h < n \<Longrightarrow> t < n \<Longrightarrow> Suc t mod n \<noteq> h \<Longrightarrow> ring_len n h (Suc t mod n) = Suc (ring_len n h t)"
  by (auto simp: ring_len_def Suc_mod_ring)

lemma ring_len_pop:
  "h < n \<Longrightarrow> t < n \<Longrightarrow> h \<noteq> t \<Longrightarrow> Suc (ring_len n (Suc h mod n) t) = ring_len n h t"
  by (auto simp: ring_len_def Suc_mod_ring)

lemma ring_index_tail: "h < n \<Longrightarrow> t < n \<Longrightarrow> (h + ring_len n h t) mod n = t"
  by (auto simp: ring_len_def)

lemma ring_index_inj:
  fixes h i j n :: nat
  assumes "h < n" "i < n" "j < n" "(h + i) mod n = (h + j) mod n"
  shows "i = j"
proof -
  have "(h + x) mod n = (if h + x < n then h + x else h + x - n)" if "x < n" for x
    using that assms(1) by (simp add: mod_if)
  with assms show ?thesis by (auto split: if_splits)
qed

lemma ring_index_Suc: "(Suc h mod n + i) mod n = (h + Suc i) mod n"
  by (simp add: mod_simps)

lemma last_n_push:
  "0 < k \<Longrightarrow> (if k \<le> length (last_n k xs) then tl (last_n k xs) else last_n k xs) @ [x] = last_n k (xs @ [x])"
  by (auto simp: last_n_def tl_drop drop_Suc [symmetric] Suc_diff_le not_le)

end
