(* ===== verification/Doubles.thy ===== *)
theory Doubles
  imports Edge_Prelude
begin

text \<open>
  The \<^verbatim>\<open>double\<close> of the telemetry pipeline. A value is finite, an infinity or not-a-number.
  The special values follow IEEE 754: they propagate through \<^verbatim>\<open>+\<close>, \<^verbatim>\<open>-\<close>, \<^verbatim>\<open>*\<close> and \<^verbatim>\<open>/\<close>, and every
  comparison with not-a-number is false. Finite arithmetic is exact: rounding, overflow to an
  infinity and the sign of zero are not modelled.
\<close>

datatype double = Fin real | PInf | NInf | NaN

fun dneg :: "double \<Rightarrow> double" where
  "dneg (Fin a) = Fin (- a)"
| "dneg PInf = NInf"
| "dneg NInf = PInf"
| "dneg NaN = NaN"

fun dadd :: "double \<Rightarrow> double \<Rightarrow> double" where
  "dadd (Fin a) (Fin b) = Fin (a + b)"
| "dadd NaN y = NaN"
| "dadd x NaN = NaN"
| "dadd PInf NInf = NaN"
| "dadd NInf PInf = NaN"
| "dadd PInf y = PInf"
| "dadd NInf y = NInf"
| "dadd x PInf = PInf"
| "dadd x NInf = NInf"

definition dsub :: "double \<Rightarrow> double \<Rightarrow> double" where
  "dsub x y = dadd x (dneg y)"

fun dsigned_inf :: "real \<Rightarrow> double" where
  "dsigned_inf s = (if s = 0 then NaN else if 0 < s then PInf else NInf)"

fun dmul :: "double \<Rightarrow> double \<Rightarrow> double" where
  "dmul (Fin a) (Fin b) = Fin (a * b)"
| "dmul NaN y = NaN"
| "dmul x NaN = NaN"
| "dmul (Fin a) PInf = dsigned_inf a"
| "dmul (Fin a) NInf = dsigned_inf (- a)"
| "dmul PInf (Fin b) = dsigned_inf b"
| "dmul NInf (Fin b) = dsigned_inf (- b)"
| "dmul PInf PInf = PInf"
| "dmul PInf NInf = NInf"
| "dmul NInf PInf = NInf"
| "dmul NInf NInf = PInf"

text \<open>Division by an unsigned count that the language converts to \<^verbatim>\<open>double\<close>.\<close>

fun ddiv_count :: "double \<Rightarrow> nat \<Rightarrow> double" where
  "ddiv_count (Fin a) n = (if n = 0 then dsigned_inf a else Fin (a / real n))"
| "ddiv_count PInf n = PInf"
| "ddiv_count NInf n = NInf"
| "ddiv_count NaN n = NaN"

text \<open>\<^verbatim>\<open>log\<close> and \<^verbatim>\<open>sqrt\<close> of \<^verbatim>\<open>math.h\<close>: minus infinity at zero, not-a-number below.\<close>

fun dlog :: "double \<Rightarrow> double" where
  "dlog (Fin a) = (if 0 < a then Fin (ln a) else if a = 0 then NInf else NaN)"
| "dlog PInf = PInf"
| "dlog NInf = NaN"
| "dlog NaN = NaN"

fun dsqrt :: "double \<Rightarrow> double" where
  "dsqrt (Fin a) = (if 0 \<le> a then Fin (sqrt a) else NaN)"
| "dsqrt PInf = PInf"
| "dsqrt NInf = NaN"
| "dsqrt NaN = NaN"

fun dless :: "double \<Rightarrow> double \<Rightarrow> bool" where
  "dless (Fin a) (Fin b) = (a < b)"
| "dless NaN y = False"
| "dless x NaN = False"
| "dless x NInf = False"
| "dless NInf y = True"
| "dless PInf y = False"
| "dless x PInf = True"

fun is_finite :: "double \<Rightarrow> bool" where
  "is_finite (Fin a) = True"
| "is_finite x = False"

fun fin_of :: "double \<Rightarrow> real" where
  "fin_of (Fin a) = a"
| "fin_of x = 0"

lemma Fin_fin_of: "is_finite x \<Longrightarrow> Fin (fin_of x) = x"
  by (cases x) auto

lemma is_finite_iff: "is_finite x \<longleftrightarrow> (\<exists>a. x = Fin a)"
  by (cases x) auto

lemma dadd_NaN [simp]: "dadd x NaN = NaN" "dadd NaN x = NaN"
  by (cases x; simp)+

lemma dsub_Fin [simp]: "dsub (Fin a) (Fin b) = Fin (a - b)"
  by (simp add: dsub_def)

lemma dsub_NaN [simp]: "dsub x NaN = NaN" "dsub NaN x = NaN"
  by (simp_all add: dsub_def)

lemma dadd_finite_iff: "is_finite (dadd x y) \<longleftrightarrow> is_finite x \<and> is_finite y"
  by (cases x; cases y) auto

lemma dneg_finite_iff [simp]: "is_finite (dneg x) \<longleftrightarrow> is_finite x"
  by (cases x) auto

lemma dsub_finite_iff: "is_finite (dsub x y) \<longleftrightarrow> is_finite x \<and> is_finite y"
  by (simp add: dsub_def dadd_finite_iff)

lemma ddiv_count_finite_iff: "0 < n \<Longrightarrow> is_finite (ddiv_count x n) \<longleftrightarrow> is_finite x"
  by (cases x) auto

subsection \<open>Constants\<close>

text \<open>\<^verbatim>\<open>M_PI\<close> is a double: its exact value.\<close>

definition M_PI :: real where
  "M_PI = 884279719003555 / 281474976710656"

end
