(* ===== verification/Signal_Filters.thy ===== *)
theory Signal_Filters
  imports Doubles
begin

text \<open>
  The signal path of the daemon: \<^verbatim>\<open>MovingAverageFilter\<close>, \<^verbatim>\<open>ThresholdDetector\<close> and the
  \<^verbatim>\<open>DataProcessor\<close> that runs a frame through both. Each class is a record of its members,
  each method a function from the object to the object after the call and the returned value;
  \<^const>\<open>None\<close> is undefined behaviour (a window of zero, a counter past \<^verbatim>\<open>INT_MAX\<close>). The locale
  \<open>data_filter\<close> is the contract of the \<^verbatim>\<open>IDataFilter\<close> interface, interpreted on both filters
  and on their combination.
\<close>

subsection \<open>Frames\<close>

record telemetry_frame =
  sensor_id :: string
  frame_value :: double
  timestamp :: int

subsection \<open>MovingAverageFilter\<close>

record moving_average =
  maf_window :: nat
  maf_buf :: "double list"
  maf_head :: nat
  maf_count :: nat
  maf_sum :: double

definition maf_new :: "nat \<Rightarrow> moving_average" where
  "maf_new window =
     \<lparr>maf_window = window, maf_buf = replicate window (Fin 0), maf_head = 0, maf_count = 0,
      maf_sum = Fin 0\<rparr>"

definition maf_apply :: "moving_average \<Rightarrow> double \<Rightarrow> (moving_average \<times> double) option" where
  "maf_apply f sample = do {
     f \<leftarrow> (if maf_count f < maf_window f then Some (f\<lparr>maf_count := maf_count f + 1\<rparr>)
           else do {
             old \<leftarrow> vec_get (maf_buf f) (maf_head f);
             Some (f\<lparr>maf_sum := dsub (maf_sum f) old\<rparr>)
           });
     buf \<leftarrow> vec_set (maf_buf f) (maf_head f) sample;
     let f = f\<lparr>maf_buf := buf, maf_sum := dadd (maf_sum f) sample\<rparr>;
     head \<leftarrow> size_mod (maf_head f + 1) (maf_window f);
     let f = f\<lparr>maf_head := head\<rparr>;
     Some (f, ddiv_count (maf_sum f) (maf_count f))
   }"

definition maf_reset :: "moving_average \<Rightarrow> moving_average" where
  "maf_reset f =
     f\<lparr>maf_buf := replicate (length (maf_buf f)) (Fin 0), maf_head := 0, maf_count := 0,
       maf_sum := Fin 0\<rparr>"

subsection \<open>ThresholdDetector\<close>

record threshold_detector =
  thd_high :: double
  thd_low :: double
  thd_k :: int
  thd_consecutive :: int
  thd_alarm :: bool

definition thd_new :: "double \<Rightarrow> double \<Rightarrow> int \<Rightarrow> threshold_detector" where
  "thd_new high low k =
     \<lparr>thd_high = high, thd_low = low, thd_k = k, thd_consecutive = 0, thd_alarm = False\<rparr>"

definition thd_apply :: "threshold_detector \<Rightarrow> double \<Rightarrow> (threshold_detector \<times> double) option" where
  "thd_apply d sample =
     (if dless (thd_high d) sample \<or> dless sample (thd_low d) then do {
        c \<leftarrow> int_incr (thd_consecutive d);
        let d = d\<lparr>thd_consecutive := c\<rparr>;
        let d = (if c \<ge> thd_k d then d\<lparr>thd_alarm := True\<rparr> else d);
        Some (d, sample)
      }
      else Some (d\<lparr>thd_consecutive := 0, thd_alarm := False\<rparr>, sample))"

definition thd_reset :: "threshold_detector \<Rightarrow> threshold_detector" where
  "thd_reset d = d\<lparr>thd_consecutive := 0, thd_alarm := False\<rparr>"

subsection \<open>DataProcessor\<close>

record processed_metric =
  metric_sensor_id :: string
  filtered_value :: double
  alarm_flag :: bool

record data_processor =
  dp_filter :: moving_average
  dp_detector :: threshold_detector

definition dp_new :: "nat \<Rightarrow> double \<Rightarrow> double \<Rightarrow> int \<Rightarrow> data_processor" where
  "dp_new w high low k = \<lparr>dp_filter = maf_new w, dp_detector = thd_new high low k\<rparr>"

definition dp_default :: data_processor where
  "dp_default = dp_new 10 (Fin 80) (Fin 20) 3"

definition dp_process ::
  "data_processor \<Rightarrow> telemetry_frame \<Rightarrow> (data_processor \<times> processed_metric) option" where
  "dp_process p frame = do {
     (flt, filtered) \<leftarrow> maf_apply (dp_filter p) (frame_value frame);
     (det, _) \<leftarrow> thd_apply (dp_detector p) (frame_value frame);
     Some (\<lparr>dp_filter = flt, dp_detector = det\<rparr>,
           \<lparr>metric_sensor_id = sensor_id frame, filtered_value = filtered,
            alarm_flag = thd_alarm det\<rparr>)
   }"

definition dp_reset :: "data_processor \<Rightarrow> data_processor" where
  "dp_reset p = \<lparr>dp_filter = maf_reset (dp_filter p), dp_detector = thd_reset (dp_detector p)\<rparr>"

subsection \<open>Specification\<close>

text \<open>The samples the ring buffer holds, oldest first, and the mean of a list.\<close>

definition maf_contents :: "moving_average \<Rightarrow> double list" where
  "maf_contents f =
     (if maf_count f < maf_window f then take (maf_count f) (maf_buf f)
      else drop (maf_head f) (maf_buf f) @ take (maf_head f) (maf_buf f))"

definition mean :: "real list \<Rightarrow> real" where
  "mean xs = sum_list xs / real (length xs)"

definition moving_means :: "nat \<Rightarrow> real list \<Rightarrow> real list" where
  "moving_means w xs = map (\<lambda>i. mean (last_n w (take (Suc i) xs))) [0..<length xs]"

text \<open>The object is well-formed for window \<open>w\<close>; the running sum is the sum of the window.\<close>

definition maf_wf :: "nat \<Rightarrow> moving_average \<Rightarrow> bool" where
  "maf_wf w f \<longleftrightarrow>
     maf_window f = w \<and> length (maf_buf f) = w \<and> maf_count f \<le> w \<and>
     (maf_count f < w \<longrightarrow> maf_head f = maf_count f) \<and> (0 < w \<longrightarrow> maf_head f < w)"

definition maf_holds :: "moving_average \<Rightarrow> real list \<Rightarrow> bool" where
  "maf_holds f xs \<longleftrightarrow> maf_contents f = map Fin xs \<and> maf_sum f = Fin (sum_list xs)"

definition out_of_range :: "double \<Rightarrow> double \<Rightarrow> double \<Rightarrow> bool" where
  "out_of_range high low x \<longleftrightarrow> dless high x \<or> dless x low"

text \<open>Length of the run of out-of-range samples at the end of a history.\<close>

definition trailing_run :: "double \<Rightarrow> double \<Rightarrow> double list \<Rightarrow> nat" where
  "trailing_run high low xs = length (takeWhile (out_of_range high low) (rev xs))"

definition thd_wf :: "double \<Rightarrow> double \<Rightarrow> int \<Rightarrow> threshold_detector \<Rightarrow> bool" where
  "thd_wf high low k d \<longleftrightarrow> thd_high d = high \<and> thd_low d = low \<and> thd_k d = k"

text \<open>The detector after a history that ends in a run of \<open>n\<close> out-of-range samples.\<close>

definition thd_tracks :: "double \<Rightarrow> double \<Rightarrow> int \<Rightarrow> nat \<Rightarrow> threshold_detector \<Rightarrow> bool" where
  "thd_tracks high low k n d \<longleftrightarrow>
     thd_wf high low k d \<and> thd_consecutive d = int n \<and> (thd_alarm d \<longleftrightarrow> max 1 k \<le> int n)"

text \<open>No prefix of the history ends in a run that the \<^verbatim>\<open>int\<close> counter cannot hold.\<close>

definition run_fits :: "double \<Rightarrow> double \<Rightarrow> double list \<Rightarrow> bool" where
  "run_fits h l xs \<longleftrightarrow> (\<forall>i \<le> length xs. int (trailing_run h l (take i xs)) \<le> INT_MAX)"

text \<open>The metric the processor owes for the last frame of a history.\<close>

definition metric_at ::
  "nat \<Rightarrow> double \<Rightarrow> double \<Rightarrow> int \<Rightarrow> telemetry_frame list \<Rightarrow> processed_metric" where
  "metric_at w high low k hist =
     \<lparr>metric_sensor_id = sensor_id (last hist),
      filtered_value = Fin (mean (last_n w (map (\<lambda>fr. fin_of (frame_value fr)) hist))),
      alarm_flag = (max 1 k \<le> int (trailing_run high low (map frame_value hist)))\<rparr>"

text \<open>Two filters side by side on the same samples, returning the first one's output.\<close>

definition pair_apply ::
  "('s \<Rightarrow> double \<Rightarrow> ('s \<times> double) option) \<Rightarrow> ('t \<Rightarrow> double \<Rightarrow> ('t \<times> double) option) \<Rightarrow>
   's \<times> 't \<Rightarrow> double \<Rightarrow> (('s \<times> 't) \<times> double) option" where
  "pair_apply fa ga st x = do {
     (s, y) \<leftarrow> fa (fst st) x;
     (t, _) \<leftarrow> ga (snd st) x;
     Some ((s, t), y)
   }"

subsection \<open>The contract of IDataFilter\<close>

locale data_filter =
  fixes apply_op :: "'s \<Rightarrow> double \<Rightarrow> ('s \<times> double) option"
    and reset_op :: "'s \<Rightarrow> 's"
    and init_st :: 's
    and wf_st :: "'s \<Rightarrow> bool"
  assumes wf_init: "wf_st init_st"
    and wf_apply: "wf_st s \<Longrightarrow> apply_op s x = Some (s', y) \<Longrightarrow> wf_st s'"
    and reset_init: "wf_st s \<Longrightarrow> reset_op s = init_st"
begin

lemma wf_run: "run_op apply_op init_st xs = Some (s, ys) \<Longrightarrow> wf_st s"
  using run_op_invariant [where I = wf_st and f = apply_op] wf_apply wf_init by blast

lemma reset_forgets:
  "run_op apply_op init_st xs = Some (s, ys) \<Longrightarrow>
     run_op apply_op (reset_op s) zs = run_op apply_op init_st zs"
  by (simp add: wf_run reset_init)

end

locale filter_pair =
  f: data_filter fa fr fi fw + g: data_filter ga gr gi gw
  for fa :: "'s \<Rightarrow> double \<Rightarrow> ('s \<times> double) option" and fr fi fw
    and ga :: "'t \<Rightarrow> double \<Rightarrow> ('t \<times> double) option" and gr gi gw
begin

lemma pair_data_filter:
  "data_filter (pair_apply fa ga) (map_prod fr gr) (fi, gi) (\<lambda>st. fw (fst st) \<and> gw (snd st))"
  by unfold_locales
    (auto simp: pair_apply_def f.wf_init g.wf_init f.reset_init g.reset_init bind_eq_Some_conv
      map_prod_def split: prod.splits dest: f.wf_apply g.wf_apply)

end

sublocale filter_pair \<subseteq> both: data_filter "pair_apply fa ga" "map_prod fr gr" "(fi, gi)"
  "\<lambda>st. fw (fst st) \<and> gw (snd st)"
  by (rule pair_data_filter)

subsection \<open>The moving average\<close>

lemma maf_wf_new: "maf_wf w (maf_new w)"
  by (simp add: maf_wf_def maf_new_def)

lemma maf_apply_eq:
  assumes "maf_wf w f" and "0 < w"
  shows "maf_apply f x =
    (let s = (if maf_count f < w then maf_sum f else dsub (maf_sum f) (maf_buf f ! maf_head f));
         c = (if maf_count f < w then maf_count f + 1 else maf_count f)
     in Some (f\<lparr>maf_count := c, maf_buf := (maf_buf f)[maf_head f := x], maf_sum := dadd s x,
                maf_head := (maf_head f + 1) mod w\<rparr>, ddiv_count (dadd s x) c))"
  using assms by (auto simp: maf_apply_def maf_wf_def vec_simps Let_def)

lemma maf_apply_wf:
  assumes "maf_wf w f" and "maf_apply f x = Some (f', y)"
  shows "maf_wf w f'"
proof (cases "0 < w")
  case True
  have f': "f' = f\<lparr>maf_count := if maf_count f < w then maf_count f + 1 else maf_count f,
      maf_buf := (maf_buf f)[maf_head f := x], maf_sum := maf_sum f',
      maf_head := (maf_head f + 1) mod w\<rparr>"
    using assms(2) by (auto simp: maf_apply_eq [OF assms(1) True] Let_def split: if_splits)
  show ?thesis
    using assms(1) True by (subst f') (auto simp: maf_wf_def)
next
  case False
  with assms show ?thesis
    by (auto simp: maf_apply_def maf_wf_def vec_get_def)
qed

lemma maf_reset_new: "maf_wf w f \<Longrightarrow> maf_reset f = maf_new w"
  by (simp add: maf_wf_def maf_reset_def maf_new_def)

interpretation maf: data_filter maf_apply maf_reset "maf_new w" "maf_wf w" for w
  by unfold_locales (simp_all add: maf_wf_new maf_apply_wf maf_reset_new)

lemma maf_apply_contents:
  assumes wf: "maf_wf w f" and w: "0 < w" and ap: "maf_apply f x = Some (f', y)"
  shows "maf_contents f' = last_n w (maf_contents f @ [x])"
proof (cases "maf_count f < w")
  case True
  then have c: "maf_contents f = take (maf_count f) (maf_buf f)"
    using wf by (simp add: maf_contents_def maf_wf_def)
  have "maf_contents f' = take (maf_count f) (maf_buf f) @ [x]"
    using True wf ap w
    by (cases "Suc (maf_count f) = w")
      (auto simp: maf_apply_eq [OF wf w] Let_def maf_contents_def maf_wf_def
        take_Suc_conv_app_nth upd_conv_take_nth_drop)
  with c True wf show ?thesis
    by (simp add: last_n_all maf_wf_def)
next
  case False
  then have full: "maf_count f = w" and h: "maf_head f < length (maf_buf f)"
    and len: "length (maf_buf f) = w"
    using wf w by (auto simp: maf_wf_def)
  have win: "maf_window f = w" using wf by (simp add: maf_wf_def)
  have "maf_contents f' = tl (maf_contents f) @ [x]"
    using ap ring_overwrite [OF h, of x]
    by (auto simp: maf_apply_eq [OF wf w] Let_def maf_contents_def full win len)
  moreover have "length (maf_contents f) = w"
    using full len h win by (simp add: maf_contents_def)
  ultimately show ?thesis using w by (simp add: tl_append_last_n)
qed

lemma maf_contents_length:
  "maf_wf w f \<Longrightarrow> length (maf_contents f) = maf_count f"
  by (cases "0 < w") (auto simp: maf_wf_def maf_contents_def)

lemma maf_apply_holds:
  fixes a :: real
  assumes wf: "maf_wf w f" and w: "0 < w" and h: "maf_holds f xs"
  defines "xs' \<equiv> last_n w (xs @ [a])"
  shows "\<exists>f'. maf_apply f (Fin a) = Some (f', Fin (mean xs')) \<and> maf_wf w f' \<and> maf_holds f' xs'"
proof -
  obtain f' y where ap: "maf_apply f (Fin a) = Some (f', y)"
    by (simp add: maf_apply_eq [OF wf w] Let_def)
  have wf': "maf_wf w f'" using wf ap by (rule maf_apply_wf)
  have con: "maf_contents f' = map Fin xs'"
    using maf_apply_contents [OF wf w ap] h by (simp add: maf_holds_def xs'_def map_last_n)
  have len: "length xs = maf_count f"
    using maf_contents_length [OF wf] h by (simp add: maf_holds_def)
  have sum: "maf_sum f' = Fin (sum_list xs')"
  proof (cases "maf_count f < w")
    case True
    then show ?thesis using ap h len
      by (auto simp: maf_apply_eq [OF wf w] Let_def maf_holds_def xs'_def last_n_all)
  next
    case False
    then have full: "maf_count f = w" using wf by (simp add: maf_wf_def)
    have hd: "maf_buf f ! maf_head f = Fin (hd xs)" "xs \<noteq> []"
      using h full wf w len
      by (auto simp: maf_holds_def maf_contents_def maf_wf_def Cons_nth_drop_Suc [symmetric])
    have "sum_list (tl xs) = sum_list xs - hd xs"
      using hd(2) by (cases xs) auto
    with full hd len w ap h show ?thesis
      by (auto simp: maf_apply_eq [OF wf w] Let_def maf_holds_def xs'_def tl_append_last_n)
  qed
  have "y = ddiv_count (maf_sum f') (maf_count f')"
    using ap by (auto simp: maf_apply_eq [OF wf w] Let_def split: if_splits)
  moreover have "maf_count f' = length xs'" "0 < length xs'"
    using maf_contents_length [OF wf'] con w by (simp_all add: xs'_def)
  ultimately have "y = Fin (mean xs')"
    using sum by (simp add: mean_def)
  with ap wf' con sum show ?thesis by (simp add: maf_holds_def)
qed

lemma moving_means_snoc:
  "moving_means w (xs @ [x]) = moving_means w xs @ [mean (last_n w (xs @ [x]))]"
  by (simp add: moving_means_def)

lemma maf_run_holds:
  assumes w: "0 < w"
  shows "\<exists>f. run_op maf_apply (maf_new w) (map Fin xs) = Some (f, map Fin (moving_means w xs)) \<and>
    maf_wf w f \<and> maf_holds f (last_n w xs)"
proof (induction xs rule: rev_induct)
  case Nil
  have "maf_holds (maf_new w) []"
    using w by (simp add: maf_holds_def maf_contents_def maf_new_def)
  then show ?case by (simp add: moving_means_def maf_wf_new last_n_def)
next
  case (snoc x xs)
  then obtain f where f: "run_op maf_apply (maf_new w) (map Fin xs) = Some (f, map Fin (moving_means w xs))"
    "maf_wf w f" "maf_holds f (last_n w xs)" by blast
  from maf_apply_holds [OF f(2) w f(3), of x] f(1) show ?case
    by (auto simp: run_op_append moving_means_snoc last_n_last_n_append)
qed

lemma maf_poisoned_step:
  assumes wf: "maf_wf w f" and w: "0 < w"
    and bad: "\<not> is_finite (maf_sum f) \<or> \<not> is_finite x"
  shows "\<exists>f' y. maf_apply f x = Some (f', y) \<and> maf_wf w f' \<and> \<not> is_finite (maf_sum f') \<and> \<not> is_finite y"
proof -
  obtain f' y where ap: "maf_apply f x = Some (f', y)"
    by (simp add: maf_apply_eq [OF wf w] Let_def)
  have "\<not> is_finite (maf_sum f')" "y = ddiv_count (maf_sum f') (maf_count f')" "0 < maf_count f'"
    using ap bad w
    by (auto simp: maf_apply_eq [OF wf w] Let_def dadd_finite_iff dsub_finite_iff split: if_splits)
  with ap wf show ?thesis by (auto simp: ddiv_count_finite_iff intro: maf_apply_wf)
qed

lemma maf_poisoned_run:
  assumes "maf_wf w f" and "0 < w" and "\<not> is_finite (maf_sum f)"
  shows "\<exists>f' ys. run_op maf_apply f xs = Some (f', ys) \<and> (\<forall>y \<in> set ys. \<not> is_finite y)"
  using assms
proof (induction xs arbitrary: f)
  case Nil
  then show ?case by simp
next
  case (Cons x xs)
  then obtain f' y where "maf_apply f x = Some (f', y)" "maf_wf w f'" "\<not> is_finite (maf_sum f')" "\<not> is_finite y"
    using maf_poisoned_step by blast
  with Cons.IH [of f'] Cons.prems(2) show ?case by auto
qed

subsection \<open>The threshold detector\<close>

lemma thd_apply_wf: "thd_wf h l k d \<Longrightarrow> thd_apply d x = Some (d', y) \<Longrightarrow> thd_wf h l k d'"
  by (auto simp: thd_apply_def thd_wf_def bind_eq_Some_conv Let_def split: if_splits)

interpretation thd: data_filter thd_apply thd_reset "thd_new h l k" "thd_wf h l k" for h l k
  by unfold_locales
    (simp_all add: thd_apply_wf, simp_all add: thd_wf_def thd_new_def thd_reset_def)

lemma thd_apply_tracks:
  assumes "thd_tracks h l k n d" and "int n < INT_MAX \<or> \<not> out_of_range h l x"
  shows "\<exists>d'. thd_apply d x = Some (d', x) \<and>
    thd_tracks h l k (if out_of_range h l x then Suc n else 0) d'"
  using assms
  by (auto simp: thd_apply_def thd_tracks_def thd_wf_def out_of_range_def int_incr_def Let_def)

lemma thd_apply_overflow:
  "thd_tracks h l k n d \<Longrightarrow> INT_MAX \<le> int n \<Longrightarrow> out_of_range h l x \<Longrightarrow> thd_apply d x = None"
  by (auto simp: thd_apply_def thd_tracks_def thd_wf_def out_of_range_def int_incr_def)

lemma trailing_run_snoc:
  "trailing_run h l (xs @ [x]) = (if out_of_range h l x then Suc (trailing_run h l xs) else 0)"
  by (simp add: trailing_run_def)

lemma trailing_run_le: "trailing_run h l xs \<le> length xs"
  unfolding trailing_run_def using length_takeWhile_le [of "out_of_range h l" "rev xs"] by simp

lemma run_fits_snoc:
  "run_fits h l (xs @ [x]) \<longleftrightarrow> run_fits h l xs \<and> int (trailing_run h l (xs @ [x])) \<le> INT_MAX"
  by (auto simp: run_fits_def le_Suc_eq)

lemma run_fits_short: "int (length xs) \<le> INT_MAX \<Longrightarrow> run_fits h l xs"
  using trailing_run_le [of h l] unfolding run_fits_def
  by (metis (no_types, opaque_lifting) length_take min.absorb2 of_nat_le_iff order_trans)

lemma thd_run_tracks:
  "if run_fits h l xs
   then \<exists>d. run_op thd_apply (thd_new h l k) xs = Some (d, xs) \<and>
     thd_tracks h l k (trailing_run h l xs) d
   else run_op thd_apply (thd_new h l k) xs = None"
proof (induction xs rule: rev_induct)
  case Nil
  then show ?case
    by (simp add: run_fits_def trailing_run_def thd_tracks_def thd_wf_def thd_new_def INT_MAX_def)
next
  case (snoc x xs)
  show ?case
  proof (cases "run_fits h l xs")
    case True
    with snoc obtain d where d: "run_op thd_apply (thd_new h l k) xs = Some (d, xs)"
      "thd_tracks h l k (trailing_run h l xs) d" by auto
    show ?thesis
    proof (cases "run_fits h l (xs @ [x])")
      case True
      then have "int (trailing_run h l xs) < INT_MAX \<or> \<not> out_of_range h l x"
        by (auto simp: run_fits_snoc trailing_run_snoc)
      from thd_apply_tracks [OF d(2) this] d(1) True show ?thesis
        by (auto simp: run_op_append trailing_run_snoc)
    next
      case False
      then have "INT_MAX \<le> int (trailing_run h l xs)" "out_of_range h l x"
        using True by (auto simp: run_fits_snoc trailing_run_snoc INT_MAX_def split: if_splits)
      with thd_apply_overflow [OF d(2)] d(1) False show ?thesis
        by (simp add: run_op_append)
    qed
  next
    case False
    with snoc show ?thesis by (simp add: run_op_append run_fits_snoc)
  qed
qed

subsection \<open>The data processor\<close>

interpretation dpf: filter_pair maf_apply maf_reset "maf_new w" "maf_wf w"
  thd_apply thd_reset "thd_new h l k" "thd_wf h l k" for w h l k
  by unfold_locales

lemma dp_process_Some_iff:
  "dp_process p fr = Some (p', m) \<longleftrightarrow>
     (\<exists>y. maf_apply (dp_filter p) (frame_value fr) = Some (dp_filter p', y) \<and>
          (\<exists>z. thd_apply (dp_detector p) (frame_value fr) = Some (dp_detector p', z)) \<and>
          m = \<lparr>metric_sensor_id = sensor_id fr, filtered_value = y,
               alarm_flag = thd_alarm (dp_detector p')\<rparr>)"
  by (cases p') (auto simp: dp_process_def bind_eq_Some_conv)

lemma dp_run_pair:
  "run_op dp_process p frs = Some (p', ms) \<Longrightarrow>
     run_op (pair_apply maf_apply thd_apply) (dp_filter p, dp_detector p) (map frame_value frs) =
       Some ((dp_filter p', dp_detector p'), map filtered_value ms)"
proof (induction frs arbitrary: p ms)
  case Nil
  then show ?case by simp
next
  case (Cons fr frs)
  then obtain p1 m ms' where s: "dp_process p fr = Some (p1, m)"
    "run_op dp_process p1 frs = Some (p', ms')" "ms = m # ms'"
    by (auto split: option.splits)
  from Cons.IH [OF s(2)] s(1,3) show ?case
    by (auto simp: dp_process_Some_iff pair_apply_def)
qed

lemma dp_reset_new:
  assumes "run_op dp_process (dp_new w h l k) frs = Some (p, ms)"
  shows "dp_reset p = dp_new w h l k"
proof -
  have "maf_wf w (dp_filter p) \<and> thd_wf h l k (dp_detector p)"
    using dpf.both.wf_run [of w h l k] dp_run_pair [OF assms] by (fastforce simp: dp_new_def)
  then show ?thesis
    by (simp add: dp_reset_def dp_new_def maf.reset_init thd.reset_init)
qed

lemma dp_run_metrics:
  assumes w: "0 < w" and fin: "list_all (\<lambda>fr. is_finite (frame_value fr)) frs"
    and fits: "run_fits h l (map frame_value frs)"
  shows "\<exists>p. run_op dp_process (dp_new w h l k) frs =
      Some (p, map (\<lambda>i. metric_at w h l k (take (Suc i) frs)) [0..<length frs]) \<and>
    maf_wf w (dp_filter p) \<and>
    maf_holds (dp_filter p) (last_n w (map (\<lambda>fr. fin_of (frame_value fr)) frs)) \<and>
    thd_tracks h l k (trailing_run h l (map frame_value frs)) (dp_detector p)"
  using fin fits
proof (induction frs rule: rev_induct)
  case Nil
  then show ?case
    using w by (simp add: maf_wf_def maf_holds_def maf_contents_def maf_new_def dp_new_def
      thd_tracks_def thd_wf_def thd_new_def trailing_run_def last_n_def)
next
  case (snoc fr frs)
  let ?v = "frame_value fr"
  have v: "Fin (fin_of ?v) = ?v" using snoc.prems(1) by (simp add: Fin_fin_of)
  from snoc obtain p where p:
    "run_op dp_process (dp_new w h l k) frs =
      Some (p, map (\<lambda>i. metric_at w h l k (take (Suc i) frs)) [0..<length frs])"
    "maf_wf w (dp_filter p)"
    "maf_holds (dp_filter p) (last_n w (map (\<lambda>fr. fin_of (frame_value fr)) frs))"
    "thd_tracks h l k (trailing_run h l (map frame_value frs)) (dp_detector p)"
    by (auto simp: run_fits_snoc)
  from maf_apply_holds [OF p(2) w p(3), of "fin_of ?v"] obtain f where f:
    "maf_apply (dp_filter p) ?v =
       Some (f, Fin (mean (last_n w (map (\<lambda>fr. fin_of (frame_value fr)) (frs @ [fr])))))"
    "maf_wf w f" "maf_holds f (last_n w (map (\<lambda>fr. fin_of (frame_value fr)) (frs @ [fr])))"
    by (auto simp: v last_n_last_n_append)
  have "int (trailing_run h l (map frame_value frs)) < INT_MAX \<or> \<not> out_of_range h l ?v"
    using snoc.prems(2) by (auto simp: run_fits_snoc trailing_run_snoc)
  from thd_apply_tracks [OF p(4) this] obtain d where d:
    "thd_apply (dp_detector p) ?v = Some (d, ?v)"
    "thd_tracks h l k (trailing_run h l (map frame_value (frs @ [fr]))) d"
    by (auto simp: trailing_run_snoc)
  have "dp_process p fr = Some (\<lparr>dp_filter = f, dp_detector = d\<rparr>, metric_at w h l k (frs @ [fr]))"
    using f(1) d by (simp add: dp_process_def metric_at_def thd_tracks_def)
  with p(1) f d show ?case by (simp add: run_op_append)
qed

lemma metrics_of_waiting:
  assumes "run_op dp_process (dp_new w h l k) hist = Some (p, ms0)" "0 < w"
    and "list_all (\<lambda>fr. is_finite (frame_value fr)) (hist @ xs)" "run_fits h l (map frame_value (hist @ xs))"
  shows "\<exists>p'. run_op dp_process p xs =
    Some (p', map (\<lambda>i. metric_at w h l k (take i (hist @ xs))) [Suc (length hist)..<Suc (length hist + length xs)])"
proof -
  let ?g = "\<lambda>i. metric_at w h l k (take i (hist @ xs))"
  obtain p' where "run_op dp_process (dp_new w h l k) (hist @ xs) = Some (p', map (\<lambda>i. ?g (Suc i)) [0..<length (hist @ xs)])"
    using dp_run_metrics [OF assms(2-4)] by blast
  from run_op_split [OF assms(1) this] show ?thesis
    by (auto simp: drop_map map_Suc_upt [symmetric] comp_def simp del: upt_Suc)
qed

subsection \<open>Properties\<close>

text \<open>
  A moving average with a window of at least one sample, fed any list of finite samples,
  never goes wrong and returns at every call the arithmetic mean of the last \<open>w\<close> samples
  (of all samples so far while fewer than \<open>w\<close> have arrived): the ring buffer and the running
  sum implement the sliding window.
\<close>

lemma moving_average_correct:
  assumes "0 < w"
  shows "\<exists>f. run_op maf_apply (maf_new w) (map Fin xs) = Some (f, map Fin (moving_means w xs))"
  using maf_run_holds [OF assms] by blast

text \<open>
  One sample that is not finite (a not-a-number or an infinity) spoils the filter for good:
  from that call on every output is non-finite, whatever finite samples follow and however long
  ago the bad sample left the window, because the running sum never recovers.
\<close>

lemma moving_average_poisoned:
  assumes "0 < w" and "\<not> is_finite x"
  shows "\<exists>f ys zs. run_op maf_apply (maf_new w) (map Fin xs @ x # map Fin rest) = Some (f, ys @ zs) \<and>
    length ys = length xs \<and> length zs = Suc (length rest) \<and> list_all (\<lambda>z. \<not> is_finite z) zs"
proof -
  obtain f where f: "run_op maf_apply (maf_new w) (map Fin xs) = Some (f, map Fin (moving_means w xs))"
    "maf_wf w f"
    using maf_run_holds [OF assms(1)] by blast
  obtain f' y where f': "maf_apply f x = Some (f', y)" "maf_wf w f'" "\<not> is_finite (maf_sum f')"
    "\<not> is_finite y"
    using maf_poisoned_step [OF f(2) assms(1)] assms(2) by blast
  obtain f'' zs where z: "run_op maf_apply f' (map Fin rest) = Some (f'', zs)"
    "\<forall>z \<in> set zs. \<not> is_finite z"
    using maf_poisoned_run [OF f'(2) assms(1) f'(3)] by blast
  have "run_op maf_apply (maf_new w) (map Fin xs @ x # map Fin rest) =
      Some (f'', map Fin (moving_means w xs) @ (y # zs))"
    using f(1) f'(1) z(1) by (simp add: run_op_append)
  moreover have "length zs = length rest" using run_op_length [OF z(1)] by simp
  ultimately show ?thesis using f'(4) z(2)
    by (intro exI [of _ f''] exI [of _ "map Fin (moving_means w xs)"] exI [of _ "y # zs"])
      (simp add: moving_means_def list_all_iff)
qed

lemma moving_average_poisoned_example:
  "\<exists>f ys zs. run_op maf_apply (maf_new 1) (map Fin [] @ NaN # map Fin [1, 2, 3]) = Some (f, ys @ zs) \<and>
    length ys = length ([] :: real list) \<and> length zs = Suc (length [1, 2, 3 :: real]) \<and>
    list_all (\<lambda>z. \<not> is_finite z) zs"
  by (rule moving_average_poisoned) simp_all

text \<open>
  The detector raises its alarm exactly while the current run of consecutive out-of-range
  samples is at least \<open>k\<close> long (and non-empty), returning each sample unchanged. A single sample
  in range clears it. The count stays defined as long as no run exceeds \<^verbatim>\<open>INT_MAX\<close> samples, and
  the first sample past that is a signed overflow.
\<close>

lemma threshold_alarm_iff_run:
  "(if run_fits high low xs
    then \<exists>d. run_op thd_apply (thd_new high low k) xs = Some (d, xs) \<and>
      (thd_alarm d \<longleftrightarrow> max 1 k \<le> int (trailing_run high low xs))
    else run_op thd_apply (thd_new high low k) xs = None)"
  using thd_run_tracks [of high low xs k] by (auto simp: thd_tracks_def)

text \<open>
  C5. The processor turns every frame of a history of finite samples into the metric of that
  history: the frame's own sensor id, the sliding-window mean of the raw samples and the alarm
  state of the run of raw samples. The alarm looks at the raw value, not at the filtered one.
\<close>

theorem data_processor_correct:
  assumes "0 < w" and "list_all (\<lambda>fr. is_finite (frame_value fr)) frs"
    and "run_fits high low (map frame_value frs)"
  shows "\<exists>p. run_op dp_process (dp_new w high low k) frs =
    Some (p, map (\<lambda>i. metric_at w high low k (take (Suc i) frs)) [0..<length frs])"
  using dp_run_metrics [OF assms] by blast

theorem data_processor_correct_witness:
  "\<exists>p. run_op dp_process (dp_new 10 (Fin 80) (Fin 20) 3)
      (replicate 3 \<lparr>sensor_id = ''s1'', frame_value = Fin 90, timestamp = 0\<rparr>) =
    Some (p, [\<lparr>metric_sensor_id = ''s1'', filtered_value = Fin 90, alarm_flag = False\<rparr>,
              \<lparr>metric_sensor_id = ''s1'', filtered_value = Fin 90, alarm_flag = False\<rparr>,
              \<lparr>metric_sensor_id = ''s1'', filtered_value = Fin 90, alarm_flag = True\<rparr>])"
proof -
  let ?frs = "replicate 3 \<lparr>sensor_id = ''s1'', frame_value = Fin 90, timestamp = 0\<rparr>"
  have "run_fits (Fin 80) (Fin 20) (map frame_value ?frs)"
    by (rule run_fits_short) (simp add: INT_MAX_def)
  moreover have "map (\<lambda>i. metric_at 10 (Fin 80) (Fin 20) 3 (take (Suc i) ?frs)) [0..<length ?frs] =
     [\<lparr>metric_sensor_id = ''s1'', filtered_value = Fin 90, alarm_flag = False\<rparr>,
      \<lparr>metric_sensor_id = ''s1'', filtered_value = Fin 90, alarm_flag = False\<rparr>,
      \<lparr>metric_sensor_id = ''s1'', filtered_value = Fin 90, alarm_flag = True\<rparr>]"
    by (simp add: metric_at_def mean_def last_n_def trailing_run_def out_of_range_def upt_rec
      numeral_3_eq_3)
  moreover have "list_all (\<lambda>fr. is_finite (frame_value fr)) ?frs"
    by (simp add: numeral_3_eq_3)
  ultimately show ?thesis
    using data_processor_correct [of 10 ?frs "Fin 80" "Fin 20" 3] by simp
qed

text \<open>
  Resetting the processor forgets everything: after any history it answers every further
  sequence of frames exactly as a freshly constructed processor with the same parameters does.
\<close>

lemma data_processor_reset_fresh:
  assumes "run_op dp_process (dp_new w high low k) frs = Some (p, ms)"
  shows "run_op dp_process (dp_reset p) frs' = run_op dp_process (dp_new w high low k) frs'"
  by (simp add: dp_reset_new [OF assms])

end
