(* ===== verification/Telemetry_Receiver.thy ===== *)
theory Telemetry_Receiver
  imports Signal_Filters
begin

text \<open>
  \<^verbatim>\<open>TelemetryReceiver\<close>, the ring of 1024 frames between the producer and the consumer thread,
  with each method run to completion. The locale \<open>bounded_fifo\<close> is what its clients (the daemon's
  main loop, the node's producer loop) rely on; the interpretation \<open>rxq\<close> shows that the ring with
  one slot kept free provides it. The interleaving of the two threads is in \<open>Spsc_Concurrent\<close>.
\<close>

subsection \<open>The ring\<close>

definition CAPACITY :: nat where
  "CAPACITY = 1024"

record telemetry_receiver =
  rx_buf :: "telemetry_frame list"
  rx_head :: nat
  rx_tail :: nat
  rx_dropped :: u64

definition empty_frame :: telemetry_frame where
  "empty_frame = \<lparr>sensor_id = '''', frame_value = Fin 0, timestamp = 0\<rparr>"

definition rx_new :: telemetry_receiver where
  "rx_new = \<lparr>rx_buf = replicate CAPACITY empty_frame, rx_head = 0, rx_tail = 0, rx_dropped = 0\<rparr>"

text \<open>What a move leaves behind: the string is emptied, the scalar members stay.\<close>

definition moved_from :: "telemetry_frame \<Rightarrow> telemetry_frame" where
  "moved_from fr = fr\<lparr>sensor_id := ''''\<rparr>"

definition rx_push ::
  "telemetry_receiver \<Rightarrow> telemetry_frame \<Rightarrow> (telemetry_receiver \<times> bool) option" where
  "rx_push r frame = do {
     let tail = rx_tail r;
     nxt \<leftarrow> size_mod (tail + 1) CAPACITY;
     if nxt = rx_head r then Some (r\<lparr>rx_dropped := rx_dropped r + 1\<rparr>, False)
     else do {
       buf \<leftarrow> vec_set (rx_buf r) tail frame;
       Some (r\<lparr>rx_buf := buf, rx_tail := nxt\<rparr>, True)
     }
   }"

text \<open>The reference parameter \<^verbatim>\<open>out\<close> and the returned flag are one optional frame.\<close>

definition rx_pop ::
  "telemetry_receiver \<Rightarrow> (telemetry_receiver \<times> telemetry_frame option) option" where
  "rx_pop r = do {
     let head = rx_head r;
     if head = rx_tail r then Some (r, None)
     else do {
       out \<leftarrow> vec_get (rx_buf r) head;
       buf \<leftarrow> vec_set (rx_buf r) head (moved_from out);
       nxt \<leftarrow> size_mod (head + 1) CAPACITY;
       Some (r\<lparr>rx_buf := buf, rx_head := nxt\<rparr>, Some out)
     }
   }"

text \<open>
  The consumer's loop \<^verbatim>\<open>while (rx.pop(frame)) { ... }\<close>: \<^const>\<open>None\<close> when the body or the queue goes
  wrong or the loop does not end.
\<close>

partial_function (option) drain ::
  "('q \<Rightarrow> ('q \<times> 'x option) option) \<Rightarrow> ('s \<Rightarrow> 'x \<Rightarrow> 's option) \<Rightarrow> 'q \<Rightarrow> 's \<Rightarrow> ('q \<times> 's) option" where
  "drain pop body q s = do {
     (q, out) \<leftarrow> pop q;
     (case out of
        None \<Rightarrow> Some (q, s)
      | Some x \<Rightarrow> do {
          s \<leftarrow> body s x;
          drain pop body q s
        })
   }"

subsection \<open>Abstract bounded queue\<close>

datatype 'x fifo_op = Enq 'x | Deq

datatype 'x fifo_res = Enq_res bool | Deq_res "'x option"

fun fifo_step ::
  "('q \<Rightarrow> 'x \<Rightarrow> ('q \<times> bool) option) \<Rightarrow> ('q \<Rightarrow> ('q \<times> 'x option) option) \<Rightarrow>
   'q \<Rightarrow> 'x fifo_op \<Rightarrow> ('q \<times> 'x fifo_res) option" where
  "fifo_step push pop q (Enq x) = map_option (\<lambda>(q', b). (q', Enq_res b)) (push q x)"
| "fifo_step push pop q Deq = map_option (\<lambda>(q', out). (q', Deq_res out)) (pop q)"

fun afifo_step :: "nat \<Rightarrow> 'x list \<Rightarrow> 'x fifo_op \<Rightarrow> ('x list \<times> 'x fifo_res) option" where
  "afifo_step cap xs (Enq x) =
     Some (if length xs < cap then (xs @ [x], Enq_res True) else (xs, Enq_res False))"
| "afifo_step cap xs Deq =
     Some (case xs of [] \<Rightarrow> ([], Deq_res None) | y # ys \<Rightarrow> (ys, Deq_res (Some y)))"

definition rx_contents :: "telemetry_receiver \<Rightarrow> telemetry_frame list" where
  "rx_contents r =
     map (\<lambda>i. rx_buf r ! ((rx_head r + i) mod CAPACITY))
       [0..<ring_len CAPACITY (rx_head r) (rx_tail r)]"

definition rx_inv :: "telemetry_receiver \<Rightarrow> bool" where
  "rx_inv r \<longleftrightarrow>
     length (rx_buf r) = CAPACITY \<and> rx_head r < CAPACITY \<and> rx_tail r < CAPACITY"

locale bounded_fifo =
  fixes new :: 'q
    and push :: "'q \<Rightarrow> 'x \<Rightarrow> ('q \<times> bool) option"
    and pop :: "'q \<Rightarrow> ('q \<times> 'x option) option"
    and contents :: "'q \<Rightarrow> 'x list"
    and invar :: "'q \<Rightarrow> bool"
    and cap :: nat
  assumes invar_new: "invar new"
    and contents_new: "contents new = []"
    and push_room: "invar q \<Longrightarrow> length (contents q) < cap \<Longrightarrow>
      \<exists>q'. push q x = Some (q', True) \<and> invar q' \<and> contents q' = contents q @ [x]"
    and push_full: "invar q \<Longrightarrow> cap \<le> length (contents q) \<Longrightarrow>
      \<exists>q'. push q x = Some (q', False) \<and> invar q' \<and> contents q' = contents q"
    and pop_empty: "invar q \<Longrightarrow> contents q = [] \<Longrightarrow> pop q = Some (q, None)"
    and pop_head: "invar q \<Longrightarrow> contents q = x # xs \<Longrightarrow>
      \<exists>q'. pop q = Some (q', Some x) \<and> invar q' \<and> contents q' = xs"
begin

lemma step_refines:
  assumes "invar q"
  shows "\<exists>q' res. fifo_step push pop q op = Some (q', res) \<and> invar q' \<and>
    afifo_step cap (contents q) op = Some (contents q', res)"
proof (cases op)
  case (Enq x)
  then show ?thesis
    using push_room [OF assms, of x] push_full [OF assms, of x]
    by (cases "length (contents q) < cap") auto
next
  case Deq
  then show ?thesis
    using pop_empty [OF assms] pop_head [OF assms] assms
    by (cases "contents q") fastforce+
qed

lemma run_refines:
  "invar q \<Longrightarrow> \<exists>q' rs. run_op (fifo_step push pop) q ops = Some (q', rs) \<and> invar q' \<and>
    run_op (afifo_step cap) (contents q) ops = Some (contents q', rs)"
proof (induction ops arbitrary: q)
  case Nil
  then show ?case by simp
next
  case (Cons op ops)
  from step_refines [OF Cons.prems, of op] obtain q' res where
    q': "fifo_step push pop q op = Some (q', res)" "invar q'"
      "afifo_step cap (contents q) op = Some (contents q', res)" by blast
  with Cons.IH [of q'] show ?case by auto
qed

lemma drain_contents:
  "invar q \<Longrightarrow> \<exists>q'. invar q' \<and> contents q' = [] \<and>
    drain pop body q s = map_option (\<lambda>s'. (q', s')) (fold_opt body s (contents q))"
proof (induction "contents q" arbitrary: q s)
  case Nil
  then have e: "contents q = []" by simp
  show ?case
    by (rule exI [of _ q]) (simp add: e Nil.prems pop_empty drain.simps)
next
  case (Cons x xs)
  obtain q1 where q1: "pop q = Some (q1, Some x)" "invar q1" "contents q1 = xs"
    using pop_head [OF Cons.prems Cons.hyps(2) [symmetric]] by blast
  have unfold: "drain pop body q s = (case body s x of None \<Rightarrow> None | Some s' \<Rightarrow> drain pop body q1 s')"
    by (subst drain.simps) (simp add: q1 split: option.split)
  show ?case
  proof (cases "body s x")
    case None
    obtain q2 where "invar q2" "contents q2 = []"
      using Cons.hyps(1) [of q1 s] q1 by blast
    with None unfold Cons.hyps(2) [symmetric] show ?thesis by auto
  next
    case (Some s')
    then show ?thesis using Cons.hyps(1) [of q1 s'] q1 unfold Cons.hyps(2) [symmetric] by auto
  qed
qed

end

subsection \<open>The ring implements the queue\<close>

lemma CAPACITY_gt1 [simp]: "1 < CAPACITY" "0 < CAPACITY" "CAPACITY \<noteq> 0"
  by (simp_all add: CAPACITY_def)

lemma length_rx_contents [simp]:
  "length (rx_contents r) = ring_len CAPACITY (rx_head r) (rx_tail r)"
  by (simp add: rx_contents_def)

lemma rx_inv_new: "rx_inv rx_new"
  by (simp add: rx_inv_def rx_new_def)

lemma rx_push_eq:
  assumes "rx_inv r"
  shows "rx_push r fr =
    (if Suc (rx_tail r) mod CAPACITY = rx_head r
     then Some (r\<lparr>rx_dropped := rx_dropped r + 1\<rparr>, False)
     else Some (r\<lparr>rx_buf := (rx_buf r)[rx_tail r := fr], rx_tail := Suc (rx_tail r) mod CAPACITY\<rparr>, True))"
  using assms by (simp add: rx_push_def rx_inv_def vec_simps Let_def)

lemma rx_pop_eq:
  assumes "rx_inv r" and "rx_head r \<noteq> rx_tail r"
  shows "rx_pop r =
    Some (r\<lparr>rx_buf := (rx_buf r)[rx_head r := moved_from (rx_buf r ! rx_head r)],
            rx_head := Suc (rx_head r) mod CAPACITY\<rparr>, Some (rx_buf r ! rx_head r))"
  using assms by (simp add: rx_pop_def rx_inv_def vec_simps Let_def)

lemma rx_pop_none: "rx_head r = rx_tail r \<Longrightarrow> rx_pop r = Some (r, None)"
  by (simp add: rx_pop_def)

lemma rx_push_contents:
  assumes inv: "rx_inv r" and room: "Suc (rx_tail r) mod CAPACITY \<noteq> rx_head r"
  shows "rx_contents (r\<lparr>rx_buf := (rx_buf r)[rx_tail r := fr], rx_tail := Suc (rx_tail r) mod CAPACITY\<rparr>) =
    rx_contents r @ [fr]"
proof -
  let ?n = "ring_len CAPACITY (rx_head r) (rx_tail r)"
  have h: "rx_head r < CAPACITY" and t: "rx_tail r < CAPACITY" and len: "length (rx_buf r) = CAPACITY"
    using inv by (simp_all add: rx_inv_def)
  have "(rx_buf r)[rx_tail r := fr] ! ((rx_head r + i) mod CAPACITY) =
      rx_buf r ! ((rx_head r + i) mod CAPACITY)" if "i < ?n" for i
  proof -
    have "i < CAPACITY" using that ring_len_less [OF h t] by simp
    then have "(rx_head r + i) mod CAPACITY \<noteq> rx_tail r"
      using ring_index_inj [OF h, of i ?n] ring_index_tail [OF h t] ring_len_less [OF h t] that by auto
    then show ?thesis by simp
  qed
  with h t len room show ?thesis
    by (simp add: rx_contents_def ring_len_push ring_index_tail)
qed

lemma rx_pop_contents:
  assumes inv: "rx_inv r" and ne: "rx_head r \<noteq> rx_tail r"
  shows "rx_contents r = rx_buf r ! rx_head r #
    rx_contents (r\<lparr>rx_buf := (rx_buf r)[rx_head r := v], rx_head := Suc (rx_head r) mod CAPACITY\<rparr>)"
proof -
  let ?m = "ring_len CAPACITY (Suc (rx_head r) mod CAPACITY) (rx_tail r)"
  have h: "rx_head r < CAPACITY" and t: "rx_tail r < CAPACITY"
    using inv by (simp_all add: rx_inv_def)
  have n: "ring_len CAPACITY (rx_head r) (rx_tail r) = Suc ?m"
    using ring_len_pop [OF h t ne] by simp
  have "rx_head r \<noteq> Suc (rx_head r + i) mod CAPACITY" if "i < ?m" for i
    using ring_index_inj [OF h, of "Suc i" 0] that ring_len_less [OF h t] n h by auto
  then show ?thesis using h
    by (simp add: rx_contents_def n upt_conv_Cons map_Suc_upt [symmetric] ring_index_Suc
      del: upt_Suc)
qed

lemma rx_push_inv: "rx_inv r \<Longrightarrow> rx_push r fr = Some (r', b) \<Longrightarrow> rx_inv r'"
  by (auto simp: rx_push_eq split: if_splits) (auto simp: rx_inv_def)

lemma rx_pop_inv: "rx_inv r \<Longrightarrow> rx_pop r = Some (r', out) \<Longrightarrow> rx_inv r'"
  by (cases "rx_head r = rx_tail r") (auto simp: rx_pop_eq rx_pop_none, auto simp: rx_inv_def)

lemma rx_full_iff:
  "rx_inv r \<Longrightarrow> Suc (rx_tail r) mod CAPACITY = rx_head r \<longleftrightarrow> \<not> length (rx_contents r) < CAPACITY - 1"
  using ring_len_less [of "rx_head r" CAPACITY "rx_tail r"]
  by (auto simp: rx_inv_def ring_full_iff)

lemma rx_empty_iff: "rx_inv r \<Longrightarrow> rx_contents r = [] \<longleftrightarrow> rx_head r = rx_tail r"
  by (simp add: rx_inv_def ring_len_0_iff flip: length_0_conv)

interpretation rxq: bounded_fifo rx_new rx_push rx_pop rx_contents rx_inv "CAPACITY - 1"
proof unfold_locales
  show "rx_inv rx_new" by (rule rx_inv_new)
  show "rx_contents rx_new = []" by (simp add: rx_contents_def rx_new_def ring_len_def)
next
  fix q x assume "rx_inv q" "length (rx_contents q) < CAPACITY - 1"
  then show "\<exists>q'. rx_push q x = Some (q', True) \<and> rx_inv q' \<and> rx_contents q' = rx_contents q @ [x]"
    using rx_push_contents [of q x] rx_push_inv [of q x] rx_full_iff [of q] by (auto simp: rx_push_eq)
next
  fix q x assume "rx_inv q" "CAPACITY - 1 \<le> length (rx_contents q)"
  then show "\<exists>q'. rx_push q x = Some (q', False) \<and> rx_inv q' \<and> rx_contents q' = rx_contents q"
    using rx_full_iff [of q] by (auto simp: rx_push_eq rx_inv_def rx_contents_def)
next
  fix q assume "rx_inv q" "rx_contents q = []"
  then show "rx_pop q = Some (q, None)"
    by (simp add: rx_empty_iff rx_pop_none)
next
  fix q x xs assume q: "rx_inv q" "rx_contents q = x # xs"
  then have "rx_head q \<noteq> rx_tail q" using rx_empty_iff by fastforce
  with q show "\<exists>q'. rx_pop q = Some (q', Some x) \<and> rx_inv q' \<and> rx_contents q' = xs"
    using rx_pop_contents [of q "moved_from (rx_buf q ! rx_head q)"] rx_pop_inv [of q]
    by (auto simp: rx_pop_eq)
qed

lemma rx_step_dropped:
  "rx_inv r \<Longrightarrow> fifo_step rx_push rx_pop r op = Some (r', res) \<Longrightarrow>
     rx_dropped r' = rx_dropped r + (if res = Enq_res False then 1 else 0)"
  by (cases op; cases "rx_head r = rx_tail r")
    (auto simp: rx_push_eq rx_pop_eq rx_pop_none split: if_splits)

lemma rx_run_dropped:
  "rx_inv r \<Longrightarrow> run_op (fifo_step rx_push rx_pop) r ops = Some (r', rs) \<Longrightarrow>
     rx_dropped r' = rx_dropped r + of_nat (count_list rs (Enq_res False))"
proof (induction ops arbitrary: r rs)
  case Nil
  then show ?case by simp
next
  case (Cons op ops)
  obtain r1 res where r1: "fifo_step rx_push rx_pop r op = Some (r1, res)" "rx_inv r1"
    using rxq.step_refines [OF Cons.prems(1), of op] by blast
  with Cons.prems obtain rs' where "run_op (fifo_step rx_push rx_pop) r1 ops = Some (r', rs')"
    "rs = res # rs'" by (auto split: option.splits)
  with Cons.IH [OF r1(2)] rx_step_dropped [OF Cons.prems(1) r1(1)] show ?case by auto
qed

subsection \<open>Properties\<close>

text \<open>
  C16. Any sequence of pushes and pops on a new receiver never goes wrong and answers exactly like
  a first-in-first-out list bounded by 1023 frames (one slot of the 1024 stays free): frames come
  out unchanged, in order, once; a push is refused exactly when 1023 frames wait; and \<^verbatim>\<open>dropped()\<close>
  is the number of refused pushes modulo two to the 64.
\<close>

theorem receiver_is_bounded_fifo:
  "\<exists>r rs xs. run_op (fifo_step rx_push rx_pop) rx_new ops = Some (r, rs) \<and>
     run_op (afifo_step 1023) [] ops = Some (xs, rs) \<and> rx_contents r = xs \<and>
     rx_dropped r = of_nat (count_list rs (Enq_res False))"
proof -
  obtain r rs where r: "run_op (fifo_step rx_push rx_pop) rx_new ops = Some (r, rs)"
    "run_op (afifo_step (CAPACITY - 1)) (rx_contents rx_new) ops = Some (rx_contents r, rs)"
    using rxq.run_refines [OF rx_inv_new, of ops] by blast
  have "rx_dropped r = of_nat (count_list rs (Enq_res False))"
    using rx_run_dropped [OF rx_inv_new r(1)] by (simp add: rx_new_def)
  moreover have "CAPACITY - 1 = 1023" by (simp add: CAPACITY_def)
  ultimately show ?thesis using r by (auto simp: rxq.contents_new)
qed

text \<open>
  C17. The consumer loop ends: draining a receiver pops every waiting frame exactly once, oldest
  first, hands each to the loop body, and leaves the receiver empty.
\<close>

theorem drain_processes_contents_in_order:
  assumes "rx_inv r"
  shows "\<exists>r'. rx_inv r' \<and> rx_contents r' = [] \<and>
    drain rx_pop body r s = map_option (\<lambda>s'. (r', s')) (fold_opt body s (rx_contents r))"
  using rxq.drain_contents [OF assms] .

theorem drain_processes_contents_in_order_witness:
  "\<exists>r r'. rx_push rx_new empty_frame = Some (r, True) \<and> rx_inv r \<and> rx_contents r = [empty_frame] \<and>
     drain rx_pop (\<lambda>n _. Some (Suc n)) r 0 = Some (r', 1)"
proof -
  obtain r where r: "rx_push rx_new empty_frame = Some (r, True)" "rx_inv r" "rx_contents r = [empty_frame]"
    using rxq.push_room [OF rx_inv_new, of empty_frame] by (auto simp: rxq.contents_new CAPACITY_def)
  show ?thesis
    using r drain_processes_contents_in_order [OF r(2), of "\<lambda>n _. Some (Suc n)" 0] by auto
qed

end
