(* ===== verification/Spsc_Concurrent.thy ===== *)
theory Spsc_Concurrent
  imports Telemetry_Receiver
begin

text \<open>
  The producer thread inside \<^verbatim>\<open>push\<close> and the consumer thread inside \<^verbatim>\<open>pop\<close>, interleaved at every
  access to shared memory. A step is one load, store or read-modify-write of \<^verbatim>\<open>head_\<close>, \<^verbatim>\<open>tail_\<close>
  and \<^verbatim>\<open>dropped_\<close>, or one access to a slot of \<^verbatim>\<open>buf_\<close>; the local variables of the two calls are in
  the program counters. The accesses are interleaved sequentially consistently, which the
  acquire/release pairs of the code justify for the slots once no slot is accessed by both threads
  at a time (the second property below). The fields \<open>sent\<close> and \<open>recvd\<close> record the frames whose
  push has published them and the frames returned by pop.
\<close>

datatype prod_pc =
    P_idle
  | P_load_head telemetry_frame nat nat
  | P_drop
  | P_write telemetry_frame nat nat
  | P_publish telemetry_frame nat

datatype cons_pc =
    C_idle
  | C_load_tail nat
  | C_move nat
  | C_release nat telemetry_frame

record spsc =
  ring :: telemetry_receiver
  prod :: prod_pc
  cons :: cons_pc
  sent :: "telemetry_frame list"
  recvd :: "telemetry_frame list"

definition spsc_start :: "spsc \<Rightarrow> bool" where
  "spsc_start s \<longleftrightarrow>
     s = \<lparr>ring = rx_new, prod = P_idle, cons = C_idle, sent = [], recvd = []\<rparr>"

inductive push_step :: "spsc \<Rightarrow> spsc \<Rightarrow> bool" where
  push_call: "prod s = P_idle \<Longrightarrow> t = rx_tail (ring s) \<Longrightarrow>
     push_step s (s\<lparr>prod := P_load_head fr t (Suc t mod CAPACITY)\<rparr>)"
| push_full: "prod s = P_load_head fr t n \<Longrightarrow> n = rx_head (ring s) \<Longrightarrow>
     push_step s (s\<lparr>prod := P_drop\<rparr>)"
| push_room: "prod s = P_load_head fr t n \<Longrightarrow> n \<noteq> rx_head (ring s) \<Longrightarrow>
     push_step s (s\<lparr>prod := P_write fr t n\<rparr>)"
| push_drop: "prod s = P_drop \<Longrightarrow>
     push_step s (s\<lparr>prod := P_idle, ring := (ring s)\<lparr>rx_dropped := rx_dropped (ring s) + 1\<rparr>\<rparr>)"
| push_write: "prod s = P_write fr t n \<Longrightarrow> vec_set (rx_buf (ring s)) t fr = Some buf \<Longrightarrow>
     push_step s (s\<lparr>prod := P_publish fr n, ring := (ring s)\<lparr>rx_buf := buf\<rparr>\<rparr>)"
| push_publish: "prod s = P_publish fr n \<Longrightarrow>
     push_step s (s\<lparr>prod := P_idle, ring := (ring s)\<lparr>rx_tail := n\<rparr>, sent := sent s @ [fr]\<rparr>)"

inductive pop_step :: "spsc \<Rightarrow> spsc \<Rightarrow> bool" where
  pop_call: "cons s = C_idle \<Longrightarrow>
     pop_step s (s\<lparr>cons := C_load_tail (rx_head (ring s))\<rparr>)"
| pop_empty: "cons s = C_load_tail h \<Longrightarrow> h = rx_tail (ring s) \<Longrightarrow>
     pop_step s (s\<lparr>cons := C_idle\<rparr>)"
| pop_some: "cons s = C_load_tail h \<Longrightarrow> h \<noteq> rx_tail (ring s) \<Longrightarrow>
     pop_step s (s\<lparr>cons := C_move h\<rparr>)"
| pop_move: "cons s = C_move h \<Longrightarrow> vec_get (rx_buf (ring s)) h = Some out \<Longrightarrow>
     vec_set (rx_buf (ring s)) h (moved_from out) = Some buf \<Longrightarrow>
     pop_step s (s\<lparr>cons := C_release h out, ring := (ring s)\<lparr>rx_buf := buf\<rparr>\<rparr>)"
| pop_release: "cons s = C_release h out \<Longrightarrow>
     pop_step s (s\<lparr>cons := C_idle, ring := (ring s)\<lparr>rx_head := Suc h mod CAPACITY\<rparr>,
                   recvd := recvd s @ [out]\<rparr>)"

definition spsc_step :: "spsc \<Rightarrow> spsc \<Rightarrow> bool" where
  "spsc_step s t \<longleftrightarrow> push_step s t \<or> pop_step s t"

inductive_simps push_step_simps: "push_step s t"
inductive_simps pop_step_simps: "pop_step s t"

subsection \<open>The frames in flight\<close>

text \<open>
  What each program counter knows, relative to the list of frames published and not yet taken:
  the producer's slot is the one past the tail and a free slot remains after it; the consumer's
  slot is the head and its frame is the oldest one waiting.
\<close>

fun prod_ok :: "telemetry_receiver \<Rightarrow> telemetry_frame list \<Rightarrow> prod_pc \<Rightarrow> bool" where
  "prod_ok r pend P_idle = True"
| "prod_ok r pend (P_load_head fr t n) = (t = rx_tail r \<and> n = Suc t mod CAPACITY)"
| "prod_ok r pend P_drop = True"
| "prod_ok r pend (P_write fr t n) =
     (t = rx_tail r \<and> n = Suc t mod CAPACITY \<and> Suc (length pend) < CAPACITY)"
| "prod_ok r pend (P_publish fr n) =
     (n = Suc (rx_tail r) mod CAPACITY \<and> Suc (length pend) < CAPACITY \<and>
      rx_buf r ! rx_tail r = fr)"

fun cons_ok :: "telemetry_receiver \<Rightarrow> telemetry_frame list \<Rightarrow> cons_pc \<Rightarrow> bool" where
  "cons_ok r pend C_idle = True"
| "cons_ok r pend (C_load_tail h) = (h = rx_head r)"
| "cons_ok r pend (C_move h) = (h = rx_head r \<and> pend \<noteq> [])"
| "cons_ok r pend (C_release h out) = (h = rx_head r \<and> pend \<noteq> [] \<and> out = hd pend)"

definition is_release :: "cons_pc \<Rightarrow> bool" where
  "is_release c \<longleftrightarrow> (\<exists>h out. c = C_release h out)"

definition slots_ok :: "telemetry_receiver \<Rightarrow> telemetry_frame list \<Rightarrow> cons_pc \<Rightarrow> bool" where
  "slots_ok r pend c \<longleftrightarrow>
     length pend = ring_len CAPACITY (rx_head r) (rx_tail r) \<and>
     (\<forall>i < length pend. is_release c \<and> i = 0 \<or>
        rx_buf r ! ((rx_head r + i) mod CAPACITY) = pend ! i)"

definition in_flight :: "spsc \<Rightarrow> telemetry_frame list \<Rightarrow> bool" where
  "in_flight s pend \<longleftrightarrow>
     sent s = recvd s @ pend \<and> rx_inv (ring s) \<and> slots_ok (ring s) pend (cons s) \<and>
     prod_ok (ring s) pend (prod s) \<and> cons_ok (ring s) pend (cons s)"

lemma in_flight_start: "spsc_start s \<Longrightarrow> in_flight s []"
  by (simp add: spsc_start_def in_flight_def slots_ok_def rx_inv_new)
    (simp add: rx_new_def ring_len_def)

lemma pend_bound: "in_flight s pend \<Longrightarrow> length pend < CAPACITY"
  by (auto simp: in_flight_def slots_ok_def rx_inv_def ring_len_less)

lemma full_iff:
  "in_flight s pend \<Longrightarrow>
     Suc (rx_tail (ring s)) mod CAPACITY = rx_head (ring s) \<longleftrightarrow> Suc (length pend) = CAPACITY"
  by (simp add: in_flight_def slots_ok_def rx_inv_def ring_full_iff)

lemma empty_iff: "in_flight s pend \<Longrightarrow> rx_head (ring s) = rx_tail (ring s) \<longleftrightarrow> pend = []"
  by (simp add: in_flight_def slots_ok_def rx_inv_def ring_len_0_iff flip: length_0_conv)

lemma tail_slot_free:
  assumes "in_flight s pend" and "i < length pend"
  shows "(rx_head (ring s) + i) mod CAPACITY \<noteq> rx_tail (ring s)"
proof -
  have h: "rx_head (ring s) < CAPACITY" and t: "rx_tail (ring s) < CAPACITY"
    and l: "length pend = ring_len CAPACITY (rx_head (ring s)) (rx_tail (ring s))"
    using assms(1) by (simp_all add: in_flight_def slots_ok_def rx_inv_def)
  then show ?thesis
    using ring_index_inj [OF h, of i "length pend"] ring_index_tail [OF h t] assms(2)
      ring_len_less [OF h t] by auto
qed

lemma push_write_in_flight:
  assumes f: "in_flight s pend" and pc: "prod s = P_write fr t n"
    and set: "vec_set (rx_buf (ring s)) t fr = Some buf"
  shows "in_flight (s\<lparr>prod := P_publish fr n, ring := (ring s)\<lparr>rx_buf := buf\<rparr>\<rparr>) pend"
proof -
  have t: "t = rx_tail (ring s)" and buf: "buf = (rx_buf (ring s))[t := fr]" "t < length (rx_buf (ring s))"
    using f pc set by (auto simp: in_flight_def vec_set_eq_Some)
  have "slots_ok ((ring s)\<lparr>rx_buf := buf\<rparr>) pend (cons s)"
    using f tail_slot_free [OF f] unfolding slots_ok_def in_flight_def buf(1) t
    by (metis (no_types, lifting) nth_list_update_neq telemetry_receiver.select_convs(1,2,3)
      telemetry_receiver.surjective telemetry_receiver.update_convs(1))
  moreover have "cons_ok ((ring s)\<lparr>rx_buf := buf\<rparr>) pend (cons s)"
    using f by (cases "cons s") (auto simp: in_flight_def)
  ultimately show ?thesis using f pc t buf
    by (auto simp: in_flight_def rx_inv_def)
qed

lemma push_publish_in_flight:
  assumes f: "in_flight s pend" and pc: "prod s = P_publish fr n"
  shows "in_flight (s\<lparr>prod := P_idle, ring := (ring s)\<lparr>rx_tail := n\<rparr>, sent := sent s @ [fr]\<rparr>) (pend @ [fr])"
proof -
  let ?r = "ring s"
  have h: "rx_head ?r < CAPACITY" and t: "rx_tail ?r < CAPACITY"
    and l: "length pend = ring_len CAPACITY (rx_head ?r) (rx_tail ?r)"
    and n: "n = Suc (rx_tail ?r) mod CAPACITY" "Suc (length pend) < CAPACITY" "rx_buf ?r ! rx_tail ?r = fr"
    using f pc by (simp_all add: in_flight_def slots_ok_def rx_inv_def)
  have "n \<noteq> rx_head ?r" using full_iff [OF f] n by simp
  then have "ring_len CAPACITY (rx_head ?r) n = Suc (length pend)"
    using ring_len_push [OF h t] n(1) l by simp
  moreover have "(rx_head ?r + length pend) mod CAPACITY = rx_tail ?r"
    using ring_index_tail [OF h t] l by simp
  ultimately have "slots_ok (?r\<lparr>rx_tail := n\<rparr>) (pend @ [fr]) (cons s)"
    using f n(3) by (auto simp: in_flight_def slots_ok_def nth_append less_Suc_eq)
  moreover have "cons_ok (?r\<lparr>rx_tail := n\<rparr>) (pend @ [fr]) (cons s)"
    using f by (cases "cons s") (auto simp: in_flight_def)
  ultimately show ?thesis using f n(1) by (simp add: in_flight_def rx_inv_def)
qed

lemma pop_move_in_flight:
  assumes f: "in_flight s pend" and pc: "cons s = C_move h"
    and get: "vec_get (rx_buf (ring s)) h = Some out"
    and set: "vec_set (rx_buf (ring s)) h (moved_from out) = Some buf"
  shows "in_flight (s\<lparr>cons := C_release h out, ring := (ring s)\<lparr>rx_buf := buf\<rparr>\<rparr>) pend"
proof -
  let ?r = "ring s"
  have h: "h = rx_head ?r" "pend \<noteq> []" "rx_head ?r < CAPACITY" "length (rx_buf ?r) = CAPACITY"
    using f pc by (simp_all add: in_flight_def rx_inv_def)
  have buf: "buf = (rx_buf ?r)[h := moved_from out]" "out = rx_buf ?r ! h"
    using get set by (simp_all add: vec_get_eq_Some vec_set_eq_Some)
  have out: "out = hd pend"
    using f pc h buf(2) by (force simp: in_flight_def slots_ok_def is_release_def hd_conv_nth)
  have other: "h \<noteq> (rx_head ?r + i) mod CAPACITY" if "0 < i" "i < length pend" for i
    using ring_index_inj [OF h(3), of i 0] that h pend_bound [OF f] by auto
  have "slots_ok (?r\<lparr>rx_buf := buf\<rparr>) pend (C_release h out)"
    using f pc other by (fastforce simp: in_flight_def slots_ok_def is_release_def buf(1))
  moreover have "prod_ok (?r\<lparr>rx_buf := buf\<rparr>) pend (prod s)"
    using f tail_slot_free [OF f, of 0] h by (cases "prod s") (auto simp: in_flight_def buf(1))
  ultimately show ?thesis using f out h buf(1) by (simp add: in_flight_def rx_inv_def)
qed

lemma pop_release_in_flight:
  assumes f: "in_flight s pend" and pc: "cons s = C_release h out"
  shows "in_flight (s\<lparr>cons := C_idle, ring := (ring s)\<lparr>rx_head := Suc h mod CAPACITY\<rparr>,
      recvd := recvd s @ [out]\<rparr>) (tl pend)"
proof -
  let ?r = "ring s"
  have h: "h = rx_head ?r" "pend \<noteq> []" "out = hd pend"
    and hb: "rx_head ?r < CAPACITY" and t: "rx_tail ?r < CAPACITY"
    and l: "length pend = ring_len CAPACITY (rx_head ?r) (rx_tail ?r)"
    using f pc by (simp_all add: in_flight_def slots_ok_def rx_inv_def)
  have ne: "rx_head ?r \<noteq> rx_tail ?r" using empty_iff [OF f] h by simp
  have "rx_buf ?r ! ((rx_head ?r + Suc i) mod CAPACITY) = pend ! Suc i" if "Suc i < length pend" for i
    using f that by (auto simp: in_flight_def slots_ok_def)
  then have "slots_ok (?r\<lparr>rx_head := Suc h mod CAPACITY\<rparr>) (tl pend) C_idle"
    using ring_len_pop [OF hb t ne] l h
    by (auto simp: slots_ok_def nth_tl ring_index_Suc)
  moreover have "prod_ok (?r\<lparr>rx_head := Suc h mod CAPACITY\<rparr>) (tl pend) (prod s)"
    using f by (cases "prod s") (auto simp: in_flight_def)
  ultimately show ?thesis using f h by (simp add: in_flight_def rx_inv_def)
qed

text \<open>Every step keeps the correspondence, and moves the abstract queue by at most one frame.\<close>

lemma push_step_in_flight:
  assumes f: "in_flight s pend" and st: "push_step s t"
  shows "\<exists>pend'. in_flight t pend' \<and> recvd t = recvd s \<and>
    (pend' = pend \<and> sent t = sent s \<or>
     (\<exists>fr. pend' = pend @ [fr] \<and> sent t = sent s @ [fr] \<and> length pend < CAPACITY - 1))"
  using st
proof cases
  case (push_write fr t n buf)
  with push_write_in_flight [OF f] show ?thesis by auto
next
  case (push_publish fr n)
  moreover from this f have "length pend < CAPACITY - 1" by (auto simp: in_flight_def)
  ultimately show ?thesis using push_publish_in_flight [OF f] by auto
next
  case (push_room fr t n)
  then have "Suc (length pend) < CAPACITY"
    using f full_iff [OF f] pend_bound [OF f] by (auto simp: in_flight_def)
  with push_room f show ?thesis by (intro exI [of _ pend]) (simp add: in_flight_def)
next
  case push_drop
  moreover have "cons_ok ((ring s)\<lparr>rx_dropped := d\<rparr>) pend (cons s)" for d
    using f by (cases "cons s") (auto simp: in_flight_def)
  ultimately show ?thesis
    using f by (intro exI [of _ pend]) (simp add: in_flight_def rx_inv_def slots_ok_def)
qed (use f in \<open>auto simp: in_flight_def\<close>)

lemma pop_step_in_flight:
  assumes f: "in_flight s pend" and st: "pop_step s t"
  shows "\<exists>pend'. in_flight t pend' \<and> sent t = sent s \<and>
    (pend' = pend \<and> recvd t = recvd s \<or> (\<exists>fr. pend = fr # pend' \<and> recvd t = recvd s @ [fr]))"
  using st
proof cases
  case (pop_move h out buf)
  with pop_move_in_flight [OF f] show ?thesis by auto
next
  case (pop_release h out)
  moreover from this f have "pend = out # tl pend" by (auto simp: in_flight_def)
  ultimately show ?thesis using pop_release_in_flight [OF f] by auto
next
  case (pop_some h)
  with f empty_iff [OF f] show ?thesis
    by (intro exI [of _ pend]) (auto simp: in_flight_def slots_ok_def is_release_def)
qed (use f in \<open>auto simp: in_flight_def slots_ok_def is_release_def\<close>)

lemma reach_in_flight:
  assumes "reach spsc_start spsc_step s"
  obtains pend where "in_flight s pend"
proof -
  have "\<exists>pend. in_flight s pend"
    using assms
    by (rule reach_invariant)
      (auto simp: spsc_step_def intro: in_flight_start dest: push_step_in_flight pop_step_in_flight)
  with that show ?thesis by blast
qed

lemma push_step_enabled:
  assumes "in_flight s pend"
  shows "\<exists>t. push_step s t"
proof (cases "prod s")
  case (P_write fr t n)
  with assms have "vec_set (rx_buf (ring s)) t fr = Some ((rx_buf (ring s))[t := fr])"
    by (simp add: in_flight_def rx_inv_def vec_simps)
  with P_write show ?thesis by (blast intro: push_step.push_write)
next
  case (P_load_head fr t n)
  then show ?thesis by (blast intro: push_step.push_full push_step.push_room)
qed (blast intro: push_step.intros)+

lemma pop_step_enabled:
  assumes "in_flight s pend"
  shows "\<exists>t. pop_step s t"
proof (cases "cons s")
  case (C_move h)
  let ?b = "rx_buf (ring s)"
  from C_move assms have "vec_get ?b h = Some (?b ! h)"
    "vec_set ?b h (moved_from (?b ! h)) = Some (?b[h := moved_from (?b ! h)])"
    by (simp_all add: in_flight_def rx_inv_def vec_simps)
  with C_move show ?thesis by (blast intro: pop_step.pop_move)
next
  case (C_load_tail h)
  then show ?thesis by (blast intro: pop_step.pop_empty pop_step.pop_some)
qed (blast intro: pop_step.intros)+

lemma reach_push: "reach spsc_start spsc_step s \<Longrightarrow> push_step s t \<Longrightarrow> reach spsc_start spsc_step t"
  by (auto simp: spsc_step_def intro: reach_step)

lemma reach_pop: "reach spsc_start spsc_step s \<Longrightarrow> pop_step s t \<Longrightarrow> reach spsc_start spsc_step t"
  by (auto simp: spsc_step_def intro: reach_step)

text \<open>A run in which one frame waits, a second push is about to write and a pop about to move.\<close>

lemma reach_both_busy:
  "\<exists>s. reach spsc_start spsc_step s \<and> sent s = [fr] \<and> recvd s = [] \<and>
     prod s = P_write fr 1 2 \<and> cons s = C_move 0"
proof -
  let ?s0 = "\<lparr>ring = rx_new, prod = P_idle, cons = C_idle, sent = [], recvd = []\<rparr>"
  let ?s1 = "?s0\<lparr>prod := P_load_head fr 0 (Suc 0 mod CAPACITY)\<rparr>"
  let ?s2 = "?s1\<lparr>prod := P_write fr 0 (Suc 0 mod CAPACITY)\<rparr>"
  let ?s3 = "?s2\<lparr>prod := P_publish fr (Suc 0 mod CAPACITY),
    ring := (ring ?s2)\<lparr>rx_buf := (rx_buf (ring ?s2))[0 := fr]\<rparr>\<rparr>"
  let ?s4 = "?s3\<lparr>prod := P_idle, ring := (ring ?s3)\<lparr>rx_tail := Suc 0 mod CAPACITY\<rparr>,
    sent := sent ?s3 @ [fr]\<rparr>"
  let ?s5 = "?s4\<lparr>prod := P_load_head fr 1 (Suc 1 mod CAPACITY)\<rparr>"
  let ?s6 = "?s5\<lparr>prod := P_write fr 1 (Suc 1 mod CAPACITY)\<rparr>"
  let ?s7 = "?s6\<lparr>cons := C_load_tail (rx_head (ring ?s6))\<rparr>"
  let ?s8 = "?s7\<lparr>cons := C_move 0\<rparr>"
  note [simp] = rx_new_def CAPACITY_def vec_set_def
  have r: "reach spsc_start spsc_step ?s0" by (rule reach_start) (simp add: spsc_start_def)
  have r: "reach spsc_start spsc_step ?s1" by (rule reach_push [OF r]) (rule push_call, simp_all)
  have r: "reach spsc_start spsc_step ?s2" by (rule reach_push [OF r]) (rule push_room, simp_all)
  have r: "reach spsc_start spsc_step ?s3" by (rule reach_push [OF r]) (rule push_write [where t = 0], simp_all)
  have r: "reach spsc_start spsc_step ?s4" by (rule reach_push [OF r]) (rule push_publish, simp_all)
  have r: "reach spsc_start spsc_step ?s5" by (rule reach_push [OF r]) (rule push_call, simp_all)
  have r: "reach spsc_start spsc_step ?s6" by (rule reach_push [OF r]) (rule push_room, simp_all)
  have r: "reach spsc_start spsc_step ?s7" by (rule reach_pop [OF r]) (rule pop_call, simp_all)
  have r: "reach spsc_start spsc_step ?s8" by (rule reach_pop [OF r]) (rule pop_some, simp_all)
  show ?thesis by (rule exI [of _ ?s8]) (simp add: r [simplified])
qed

subsection \<open>Properties\<close>

text \<open>
  C6. However the producer's pushes and the consumer's pops interleave, the frames popped so far
  are an initial part of the frames pushed so far, in the same order and unchanged; at most 1023
  frames are in flight; a push gives up only at a moment when 1023 frames wait, and a pop returns
  false only at a moment when none does.
\<close>

theorem spsc_no_loss_no_reorder:
  assumes "reach spsc_start spsc_step s"
  shows "\<exists>pend. sent s = recvd s @ pend \<and> length pend \<le> 1023 \<and>
    (\<forall>fr t n. prod s = P_load_head fr t n \<longrightarrow> (n = rx_head (ring s) \<longleftrightarrow> length pend = 1023)) \<and>
    (\<forall>h. cons s = C_load_tail h \<longrightarrow> (h = rx_tail (ring s) \<longleftrightarrow> pend = []))"
proof -
  obtain pend where f: "in_flight s pend" using assms by (rule reach_in_flight)
  have "prod s = P_load_head fr t n \<Longrightarrow> n = rx_head (ring s) \<longleftrightarrow> length pend = 1023" for fr t n
    using f full_iff [OF f] by (auto simp: in_flight_def CAPACITY_def)
  moreover have "cons s = C_load_tail h \<Longrightarrow> h = rx_tail (ring s) \<longleftrightarrow> pend = []" for h
    using f empty_iff [OF f] by (auto simp: in_flight_def)
  moreover have "sent s = recvd s @ pend" using f by (simp add: in_flight_def)
  moreover have "length pend \<le> 1023" using pend_bound [OF f] by (simp add: CAPACITY_def)
  ultimately show ?thesis by blast
qed

theorem spsc_no_loss_no_reorder_witness:
  "\<exists>s pend. reach spsc_start spsc_step s \<and> sent s = [empty_frame] \<and> recvd s = [] \<and>
     sent s = recvd s @ pend \<and> length pend \<le> 1023"
proof -
  obtain s where s: "reach spsc_start spsc_step s" "sent s = [empty_frame]" "recvd s = []"
    using reach_both_busy by blast
  with spsc_no_loss_no_reorder [OF s(1)] show ?thesis by blast
qed

text \<open>
  C15. The two threads never touch the same slot: when the producer is about to write a slot and the
  consumer is about to move a frame out of one, the slots differ. Both slots are inside the
  array, and neither thread is ever stuck on an access out of range.
\<close>

theorem spsc_race_free:
  assumes "reach spsc_start spsc_step s"
  shows "(\<forall>fr t n h. prod s = P_write fr t n \<and> cons s = C_move h \<longrightarrow> t \<noteq> h) \<and>
    (\<exists>t. push_step s t) \<and> (\<exists>t. pop_step s t)"
proof -
  obtain pend where f: "in_flight s pend" using assms by (rule reach_in_flight)
  have "t \<noteq> h" if "prod s = P_write fr t n" "cons s = C_move h" for fr t n h
    using f that tail_slot_free [OF f, of 0] by (auto simp: in_flight_def rx_inv_def)
  with push_step_enabled [OF f] pop_step_enabled [OF f] show ?thesis by blast
qed

theorem spsc_race_free_witness:
  "\<exists>s. reach spsc_start spsc_step s \<and> prod s = P_write empty_frame 1 2 \<and> cons s = C_move 0 \<and>
     (1::nat) \<noteq> 0 \<and> (\<exists>t. push_step s t) \<and> (\<exists>t. pop_step s t)"
proof -
  obtain s where s: "reach spsc_start spsc_step s" "prod s = P_write empty_frame 1 2" "cons s = C_move 0"
    using reach_both_busy by blast
  with spsc_race_free [OF s(1)] show ?thesis by blast
qed

end
