(* ===== verification/State_Manager.thy ===== *)
theory State_Manager
  imports Doubles
begin

text \<open>
  \<^verbatim>\<open>StateManager\<close>, the four-state machine of the daemon, with each method run to completion. The
  two registered callbacks act on the world \<open>'w\<close> of whoever registered them (the D-Bus object
  of the daemon, the alarm flag of a telemetry node), so a method maps the machine and the world
  to the machine and the world after the call. \<^verbatim>\<open>start()\<close> throws \<^verbatim>\<open>std::logic_error\<close> as \<open>Inl\<close>
  with its message, before it changes anything. The interleaving of threads inside the methods is
  in \<open>State_Manager_Concurrent\<close>.
\<close>

datatype daemon_state = IDLE | RUNNING | FAULT | SHUTDOWN

fun stateToString :: "daemon_state \<Rightarrow> string" where
  "stateToString IDLE = ''IDLE''"
| "stateToString RUNNING = ''RUNNING''"
| "stateToString FAULT = ''FAULT''"
| "stateToString SHUTDOWN = ''SHUTDOWN''"

type_synonym 'w state_changed_cb = "daemon_state \<Rightarrow> daemon_state \<Rightarrow> 'w \<Rightarrow> 'w"
type_synonym 'w alarm_cb = "string \<Rightarrow> double \<Rightarrow> double \<Rightarrow> 'w \<Rightarrow> 'w"

record 'w state_manager =
  sm_state :: daemon_state
  state_changed_cb :: "'w state_changed_cb option"
  alarm_cb :: "'w alarm_cb option"

definition sm_new :: "'w state_manager" where
  "sm_new = \<lparr>sm_state = IDLE, state_changed_cb = None, alarm_cb = None\<rparr>"

definition setStateChangedCallback ::
  "'w state_manager \<Rightarrow> 'w state_changed_cb option \<Rightarrow> 'w state_manager" where
  "setStateChangedCallback sm cb = sm\<lparr>state_changed_cb := cb\<rparr>"

definition setAlarmCallback :: "'w state_manager \<Rightarrow> 'w alarm_cb option \<Rightarrow> 'w state_manager" where
  "setAlarmCallback sm cb = sm\<lparr>alarm_cb := cb\<rparr>"

definition call_state_cb :: "'w state_manager \<Rightarrow> daemon_state \<Rightarrow> daemon_state \<Rightarrow> 'w \<Rightarrow> 'w" where
  "call_state_cb sm nxt prev w =
     (case state_changed_cb sm of None \<Rightarrow> w | Some cb \<Rightarrow> cb nxt prev w)"

definition call_alarm_cb :: "'w state_manager \<Rightarrow> string \<Rightarrow> double \<Rightarrow> double \<Rightarrow> 'w \<Rightarrow> 'w" where
  "call_alarm_cb sm sid v thr w =
     (case alarm_cb sm of None \<Rightarrow> w | Some cb \<Rightarrow> cb sid v thr w)"

definition sm_start :: "'w state_manager \<Rightarrow> 'w \<Rightarrow> string + ('w state_manager \<times> 'w)" where
  "sm_start sm w =
     (let prev = sm_state sm in
      if prev = RUNNING then Inl ''start() called from RUNNING state''
      else if prev = SHUTDOWN then Inl ''start() called from SHUTDOWN state''
      else let sm = sm\<lparr>sm_state := RUNNING\<rparr> in Inr (sm, call_state_cb sm RUNNING prev w))"

definition sm_transition :: "daemon_state \<Rightarrow> 'w state_manager \<Rightarrow> 'w \<Rightarrow> 'w state_manager \<times> 'w" where
  "sm_transition nxt sm w =
     (let prev = sm_state sm; sm = sm\<lparr>sm_state := nxt\<rparr> in (sm, call_state_cb sm nxt prev w))"

definition sm_halt :: "'w state_manager \<Rightarrow> 'w \<Rightarrow> 'w state_manager \<times> 'w" where
  "sm_halt sm w = (if sm_state sm = SHUTDOWN then (sm, w) else sm_transition IDLE sm w)"

definition sm_fault ::
  "string \<Rightarrow> double \<Rightarrow> double \<Rightarrow> 'w state_manager \<Rightarrow> 'w \<Rightarrow> 'w state_manager \<times> 'w" where
  "sm_fault sid v thr sm w =
     (if sm_state sm \<noteq> RUNNING then (sm, w)
      else let sm = sm\<lparr>sm_state := FAULT\<rparr>;
               w = call_state_cb sm FAULT RUNNING w
           in (sm, call_alarm_cb sm sid v thr w))"

definition sm_shutdown :: "'w state_manager \<Rightarrow> 'w \<Rightarrow> 'w state_manager \<times> 'w" where
  "sm_shutdown sm w = sm_transition SHUTDOWN sm w"

subsection \<open>Commands and their specification\<close>

datatype sm_cmd = Start | Halt | Fault string double double | Shutdown

text \<open>One call; the answer is the exception's message, if one was thrown.\<close>

fun sm_exec ::
  "'w state_manager \<times> 'w \<Rightarrow> sm_cmd \<Rightarrow> (('w state_manager \<times> 'w) \<times> string option) option" where
  "sm_exec (sm, w) Start =
     Some (case sm_start sm w of Inl e \<Rightarrow> ((sm, w), Some e) | Inr smw \<Rightarrow> (smw, None))"
| "sm_exec (sm, w) Halt = Some (sm_halt sm w, None)"
| "sm_exec (sm, w) (Fault sid v thr) = Some (sm_fault sid v thr sm w, None)"
| "sm_exec (sm, w) Shutdown = Some (sm_shutdown sm w, None)"

text \<open>The next state of the documented machine; \<^const>\<open>None\<close> where \<^verbatim>\<open>start()\<close> throws.\<close>

fun fsm_next :: "daemon_state \<Rightarrow> sm_cmd \<Rightarrow> daemon_state option" where
  "fsm_next s Start = (if s = IDLE \<or> s = FAULT then Some RUNNING else None)"
| "fsm_next s Halt = Some (if s = SHUTDOWN then SHUTDOWN else IDLE)"
| "fsm_next s (Fault sid v thr) = Some (if s = RUNNING then FAULT else s)"
| "fsm_next s Shutdown = Some SHUTDOWN"

text \<open>
  A recording client: the list of state changes and the list of alarms it was told about. The
  specification of what it must see is computed from the documented machine.
\<close>

type_synonym sm_log = "(daemon_state \<times> daemon_state) list \<times> (string \<times> double \<times> double) list"

definition recording :: "daemon_state \<Rightarrow> sm_log state_manager" where
  "recording s =
     \<lparr>sm_state = s,
      state_changed_cb = Some (\<lambda>nxt prev (cs, as). (cs @ [(nxt, prev)], as)),
      alarm_cb = Some (\<lambda>sid v thr (cs, as). (cs, as @ [(sid, v, thr)]))\<rparr>"

fun fsm_notifies :: "daemon_state \<Rightarrow> sm_cmd \<Rightarrow> bool" where
  "fsm_notifies s Start = (s = IDLE \<or> s = FAULT)"
| "fsm_notifies s Halt = (s \<noteq> SHUTDOWN)"
| "fsm_notifies s (Fault sid v thr) = (s = RUNNING)"
| "fsm_notifies s Shutdown = True"

definition fsm_log :: "daemon_state \<Rightarrow> sm_cmd \<Rightarrow> sm_log" where
  "fsm_log s c =
     (if fsm_notifies s c then [(the (fsm_next s c), s)] else [],
      case c of Fault sid v thr \<Rightarrow> if s = RUNNING then [(sid, v, thr)] else [] | _ \<Rightarrow> [])"

fun fsm_run :: "daemon_state \<Rightarrow> sm_cmd list \<Rightarrow> daemon_state \<times> sm_log" where
  "fsm_run s [] = (s, [], [])"
| "fsm_run s (c # cs) =
     (let s' = (case fsm_next s c of None \<Rightarrow> s | Some t \<Rightarrow> t);
          (changes, alarms) = fsm_log s c;
          (t, changes', alarms') = fsm_run s' cs
      in (t, changes @ changes', alarms @ alarms'))"

fun fsm_error :: "daemon_state \<Rightarrow> sm_cmd \<Rightarrow> string option" where
  "fsm_error RUNNING Start = Some ''start() called from RUNNING state''"
| "fsm_error SHUTDOWN Start = Some ''start() called from SHUTDOWN state''"
| "fsm_error s c = None"

fun fsm_errors :: "daemon_state \<Rightarrow> sm_cmd list \<Rightarrow> string option list" where
  "fsm_errors s [] = []"
| "fsm_errors s (c # cs) =
     fsm_error s c # fsm_errors (case fsm_next s c of None \<Rightarrow> s | Some t \<Rightarrow> t) cs"

subsection \<open>Lemmas\<close>

lemmas sm_method_defs = sm_start_def sm_halt_def sm_fault_def sm_shutdown_def sm_transition_def
  call_state_cb_def call_alarm_cb_def

lemma sm_exec_recording:
  "sm_exec (recording s, (cs, as)) c =
     Some ((recording (case fsm_next s c of None \<Rightarrow> s | Some t \<Rightarrow> t),
            (cs @ fst (fsm_log s c), as @ snd (fsm_log s c))), fsm_error s c)"
  by (cases c; cases s) (simp_all add: sm_method_defs recording_def fsm_log_def)

lemma sm_run_recording:
  "run_op sm_exec (recording s, (cs, as)) cmds =
     Some ((recording (fst (fsm_run s cmds)),
            (cs @ fst (snd (fsm_run s cmds)), as @ snd (snd (fsm_run s cmds)))), fsm_errors s cmds)"
proof (induction cmds arbitrary: s cs as)
  case Nil
  then show ?case by simp
next
  case (Cons c cmds)
  then show ?case
    by (simp add: sm_exec_recording Let_def split: prod.split)
qed

lemma fsm_run_shutdown: "fsm_run SHUTDOWN cmds = (SHUTDOWN, replicate (count_list cmds Shutdown) (SHUTDOWN, SHUTDOWN), [])"
  by (induction cmds) (auto simp: fsm_log_def split: sm_cmd.splits)

subsection \<open>Properties\<close>

text \<open>
  C10. Run one after the other, the methods implement the documented state machine: after any
  sequence of calls the machine is in the documented state, the state callback has been told every
  state change once, in order, with the right new and previous state, the alarm callback has been
  told exactly the faults that hit a running machine, and \<^verbatim>\<open>start()\<close> throws, with the message for
  the state it was called from and without changing anything, exactly from RUNNING and SHUTDOWN.
\<close>

theorem state_manager_refines_fsm:
  "run_op sm_exec (recording IDLE, ([], [])) cmds =
     Some ((recording (fst (fsm_run IDLE cmds)), snd (fsm_run IDLE cmds)), fsm_errors IDLE cmds)"
  using sm_run_recording [of IDLE "[]" "[]" cmds] by simp

text \<open>
  As long as calls do not overlap, a machine that has been shut down stays shut down and
  raises no further alarm, whatever is called afterwards.
\<close>

lemma shutdown_is_final_sequentially:
  "\<exists>es cs. run_op sm_exec (recording s, ([], [])) (Shutdown # cmds) =
     Some ((recording SHUTDOWN, (cs, [])), es)"
  using sm_run_recording [of s "[]" "[]" "Shutdown # cmds"]
  by (auto simp: fsm_run_shutdown fsm_log_def)

end
