(* ===== verification/State_Manager_Concurrent.thy ===== *)
theory State_Manager_Concurrent
  imports State_Manager "HOL-Library.Multiset"
begin

text \<open>
  Threads inside the methods of one \<^verbatim>\<open>StateManager\<close>, interleaved at every access to the atomic
  \<^verbatim>\<open>state_\<close>, at every copy of a callback under the mutex and at every call of a copied callback. Any number of threads
  call any method in any order; callbacks are installed and removed at any time. The program
  counter of a thread holds the local variables of its call. \<^verbatim>\<open>compare_exchange_weak\<close> may fail
  without reason, so its retry is enabled at any time. \<open>scb\<close> and \<open>acb\<close> say whether the two callbacks are
  installed; \<open>notified\<close> and \<open>alarms\<close> are the callback invocations. The fields
  \<open>hist\<close> (the successful writes of \<^verbatim>\<open>state_\<close>: method, previous and new state), \<open>raised\<close> (the faults
  that won their exchange), \<open>missed\<close> and \<open>missed_alarms\<close> (what was not passed on because the callback was null) are
  there for the statements only.
\<close>

datatype sm_pc =
    T_idle
  | Start_cas daemon_state
  | Halt_xchg
  | Notify daemon_state daemon_state "(string \<times> double \<times> double) option"
  | Calling daemon_state daemon_state "(string \<times> double \<times> double) option"
  | Alarm "string \<times> double \<times> double"
  | Alarming "string \<times> double \<times> double"

datatype sm_kind = K_start | K_halt | K_fault | K_shutdown

record sm_sys =
  st :: daemon_state
  pcs :: "sm_pc list"
  scb :: bool
  acb :: bool
  notified :: "(daemon_state \<times> daemon_state) list"
  alarms :: "(string \<times> double \<times> double) list"
  hist :: "(sm_kind \<times> daemon_state \<times> daemon_state) list"
  raised :: "(string \<times> double \<times> double) list"
  missed :: "(daemon_state \<times> daemon_state) list"
  missed_alarms :: "(string \<times> double \<times> double) list"

definition sm_begin :: "sm_sys \<Rightarrow> bool" where
  "sm_begin s \<longleftrightarrow> st s = IDLE \<and> set (pcs s) \<subseteq> {T_idle} \<and> notified s = [] \<and> alarms s = [] \<and>
     hist s = [] \<and> raised s = [] \<and> missed s = [] \<and> missed_alarms s = []"

text \<open>A successful write of \<^verbatim>\<open>state_\<close> by thread \<open>i\<close>, which goes on to its notification.\<close>

definition sm_write ::
  "sm_kind \<Rightarrow> daemon_state \<Rightarrow> (string \<times> double \<times> double) option \<Rightarrow> nat \<Rightarrow> sm_sys \<Rightarrow> sm_sys" where
  "sm_write kind nxt al i s =
     s\<lparr>st := nxt, pcs := (pcs s)[i := Notify nxt (st s) al], hist := hist s @ [(kind, st s, nxt)],
       raised := raised s @ (case al of None \<Rightarrow> [] | Some a \<Rightarrow> [a])\<rparr>"

definition at_pc :: "sm_sys \<Rightarrow> nat \<Rightarrow> sm_pc \<Rightarrow> bool" where
  "at_pc s i pc \<longleftrightarrow> i < length (pcs s) \<and> pcs s ! i = pc"

text \<open>Where a method goes on after its state change was passed on.\<close>

definition after_change :: "(string \<times> double \<times> double) option \<Rightarrow> sm_pc" where
  "after_change al = (case al of None \<Rightarrow> T_idle | Some a \<Rightarrow> Alarm a)"

inductive sm_step :: "sm_sys \<Rightarrow> sm_sys \<Rightarrow> bool" where
  start_load: "at_pc s i T_idle \<Longrightarrow> sm_step s (s\<lparr>pcs := (pcs s)[i := Start_cas (st s)]\<rparr>)"
| start_throw: "at_pc s i (Start_cas prev) \<Longrightarrow> prev = RUNNING \<or> prev = SHUTDOWN \<Longrightarrow>
     sm_step s (s\<lparr>pcs := (pcs s)[i := T_idle]\<rparr>)"
| start_win: "at_pc s i (Start_cas prev) \<Longrightarrow> prev \<noteq> RUNNING \<Longrightarrow> prev \<noteq> SHUTDOWN \<Longrightarrow> st s = prev \<Longrightarrow>
     sm_step s (sm_write K_start RUNNING None i s)"
| start_retry: "at_pc s i (Start_cas prev) \<Longrightarrow> prev \<noteq> RUNNING \<Longrightarrow> prev \<noteq> SHUTDOWN \<Longrightarrow>
     sm_step s (s\<lparr>pcs := (pcs s)[i := Start_cas (st s)]\<rparr>)"
| halt_skip: "at_pc s i T_idle \<Longrightarrow> st s = SHUTDOWN \<Longrightarrow> sm_step s s"
| halt_load: "at_pc s i T_idle \<Longrightarrow> st s \<noteq> SHUTDOWN \<Longrightarrow>
     sm_step s (s\<lparr>pcs := (pcs s)[i := Halt_xchg]\<rparr>)"
| halt_xchg: "at_pc s i Halt_xchg \<Longrightarrow> sm_step s (sm_write K_halt IDLE None i s)"
| fault_win: "at_pc s i T_idle \<Longrightarrow> st s = RUNNING \<Longrightarrow>
     sm_step s (sm_write K_fault FAULT (Some (sid, v, thr)) i s)"
| fault_lose: "at_pc s i T_idle \<Longrightarrow> st s \<noteq> RUNNING \<Longrightarrow> sm_step s s"
| shutdown_xchg: "at_pc s i T_idle \<Longrightarrow> sm_step s (sm_write K_shutdown SHUTDOWN None i s)"
| notify_copy: "at_pc s i (Notify nxt prev al) \<Longrightarrow> scb s \<Longrightarrow>
     sm_step s (s\<lparr>pcs := (pcs s)[i := Calling nxt prev al]\<rparr>)"
| notify_null: "at_pc s i (Notify nxt prev al) \<Longrightarrow> \<not> scb s \<Longrightarrow>
     sm_step s (s\<lparr>missed := missed s @ [(nxt, prev)], pcs := (pcs s)[i := after_change al]\<rparr>)"
| notify: "at_pc s i (Calling nxt prev al) \<Longrightarrow>
     sm_step s (s\<lparr>notified := notified s @ [(nxt, prev)], pcs := (pcs s)[i := after_change al]\<rparr>)"
| alarm_copy: "at_pc s i (Alarm a) \<Longrightarrow> acb s \<Longrightarrow> sm_step s (s\<lparr>pcs := (pcs s)[i := Alarming a]\<rparr>)"
| alarm_null: "at_pc s i (Alarm a) \<Longrightarrow> \<not> acb s \<Longrightarrow>
     sm_step s (s\<lparr>missed_alarms := missed_alarms s @ [a], pcs := (pcs s)[i := T_idle]\<rparr>)"
| alarm: "at_pc s i (Alarming a) \<Longrightarrow>
     sm_step s (s\<lparr>alarms := alarms s @ [a], pcs := (pcs s)[i := T_idle]\<rparr>)"
| set_state_cb: "sm_step s (s\<lparr>scb := b\<rparr>)"
| set_alarm_cb: "sm_step s (s\<lparr>acb := b\<rparr>)"

text \<open>A step in which both callbacks stay installed, as in the daemon from its set-up to its end.\<close>

definition installed_step :: "sm_sys \<Rightarrow> sm_sys \<Rightarrow> bool" where
  "installed_step s t \<longleftrightarrow> sm_step s t \<and> scb s \<and> acb s"

subsection \<open>Specification of the history\<close>

text \<open>The writes each method is allowed to make.\<close>

fun legal_write :: "sm_kind \<times> daemon_state \<times> daemon_state \<Rightarrow> bool" where
  "legal_write (K_start, prev, nxt) = ((prev = IDLE \<or> prev = FAULT) \<and> nxt = RUNNING)"
| "legal_write (K_halt, prev, nxt) = (nxt = IDLE)"
| "legal_write (K_fault, prev, nxt) = (prev = RUNNING \<and> nxt = FAULT)"
| "legal_write (K_shutdown, prev, nxt) = (nxt = SHUTDOWN)"

text \<open>The writes link up from one state to another.\<close>

fun links :: "daemon_state \<Rightarrow> (sm_kind \<times> daemon_state \<times> daemon_state) list \<Rightarrow> daemon_state \<Rightarrow> bool" where
  "links s [] t = (s = t)"
| "links s ((k, prev, nxt) # es) t = (s = prev \<and> links nxt es t)"

text \<open>Announcements, each of a new and a previous state, read as a run of the machine.\<close>

fun announced_run :: "daemon_state \<Rightarrow> (daemon_state \<times> daemon_state) list \<Rightarrow> daemon_state \<Rightarrow> bool" where
  "announced_run s [] t = (s = t)"
| "announced_run s ((nxt, prev) # es) t = (s = prev \<and> announced_run nxt es t)"

fun pending_change :: "sm_pc \<Rightarrow> (daemon_state \<times> daemon_state) multiset" where
  "pending_change (Notify nxt prev al) = {#(nxt, prev)#}"
| "pending_change (Calling nxt prev al) = {#(nxt, prev)#}"
| "pending_change pc = {#}"

fun pending_alarm :: "sm_pc \<Rightarrow> (string \<times> double \<times> double) multiset" where
  "pending_alarm (Notify nxt prev (Some a)) = {#a#}"
| "pending_alarm (Calling nxt prev (Some a)) = {#a#}"
| "pending_alarm (Alarm a) = {#a#}"
| "pending_alarm (Alarming a) = {#a#}"
| "pending_alarm pc = {#}"

definition pending :: "(sm_pc \<Rightarrow> 'b multiset) \<Rightarrow> sm_sys \<Rightarrow> 'b multiset" where
  "pending f s = sum_list (map f (pcs s))"

definition hist_ok :: "sm_sys \<Rightarrow> bool" where
  "hist_ok s \<longleftrightarrow> links IDLE (hist s) (st s) \<and> list_all legal_write (hist s)"

definition delivery_ok :: "sm_sys \<Rightarrow> bool" where
  "delivery_ok s \<longleftrightarrow>
     mset (map (\<lambda>(k, prev, nxt). (nxt, prev)) (hist s)) = mset (notified s) + mset (missed s) + pending pending_change s \<and>
     mset (raised s) = mset (alarms s) + mset (missed_alarms s) + pending pending_alarm s"

text \<open>Once shut down with no halt past its test, only notifications and failing calls remain.\<close>

definition shut_quiet :: "sm_sys \<Rightarrow> bool" where
  "shut_quiet s \<longleftrightarrow> st s = SHUTDOWN \<and> Halt_xchg \<notin> set (pcs s)"

subsection \<open>Lemmas\<close>

lemma links_snoc: "links s (es @ [(k, prev, nxt)]) t \<longleftrightarrow> links s es prev \<and> nxt = t"
  by (induction s es prev rule: links.induct) auto

lemma hist_ok_write:
  "hist_ok s \<Longrightarrow> legal_write (k, st s, nxt) \<Longrightarrow> hist_ok (sm_write k nxt al i s)"
  by (simp add: hist_ok_def sm_write_def links_snoc)

lemma hist_ok_step: "sm_step s t \<Longrightarrow> hist_ok s \<Longrightarrow> hist_ok t"
proof (induction rule: sm_step.induct)
  case (start_win s i prev)
  then show ?case by (intro hist_ok_write) (cases prev; auto)+
qed (auto simp: hist_ok_def sm_write_def links_snoc split: option.split)

lemma sum_list_map_update:
  fixes f :: "'a \<Rightarrow> 'b::comm_monoid_add"
  assumes "i < length xs"
  shows "sum_list (map f (xs[i := y])) + f (xs ! i) = sum_list (map f xs) + f y"
  using assms
proof (induction xs arbitrary: i)
  case Nil
  then show ?case by simp
next
  case (Cons x xs)
  then show ?case by (cases i) (auto simp: ac_simps)
qed

lemma pending_move:
  "at_pc s i pc \<Longrightarrow> pcs t = (pcs s)[i := pc'] \<Longrightarrow> pending f t + f pc = pending f s + f pc'"
  using sum_list_map_update [of i "pcs s" f pc'] by (simp add: at_pc_def pending_def)

lemma delivery_ok_write:
  assumes "delivery_ok s" and "at_pc s i pc" and "pending_change pc = {#}" and "pending_alarm pc = {#}"
  shows "delivery_ok (sm_write k nxt al i s)"
proof -
  let ?t = "sm_write k nxt al i s"
  have pcs: "pcs ?t = (pcs s)[i := Notify nxt (st s) al]" by (simp add: sm_write_def)
  from pending_move [OF assms(2) pcs, of pending_change] pending_move [OF assms(2) pcs, of pending_alarm]
  show ?thesis using assms(1,3,4)
    by (cases al) (simp_all add: delivery_ok_def sm_write_def ac_simps)
qed

lemma delivery_ok_local:
  assumes "delivery_ok s" and "at_pc s i pc" and "pending_change pc' = pending_change pc"
    and "pending_alarm pc' = pending_alarm pc"
  shows "delivery_ok (s\<lparr>pcs := (pcs s)[i := pc']\<rparr>)"
proof -
  let ?t = "s\<lparr>pcs := (pcs s)[i := pc']\<rparr>"
  have pcs: "pcs ?t = (pcs s)[i := pc']" by simp
  from pending_move [OF assms(2) pcs, of pending_change] pending_move [OF assms(2) pcs, of pending_alarm]
  show ?thesis using assms by (simp add: delivery_ok_def)
qed

lemma pending_alarm_change:
  "pending_alarm (Notify nxt prev al) = mset_set (set_option al)" "pending_alarm (Calling nxt prev al) = mset_set (set_option al)"
  "pending_alarm (after_change al) = mset_set (set_option al)" "pending_change (after_change al) = {#}"
  by (cases al; simp add: after_change_def)+

lemma delivery_ok_pass:
  assumes "delivery_ok s" and "at_pc s i pc" and "pcs t = (pcs s)[i := pc']" and "hist t = hist s" and "raised t = raised s"
    and "mset (notified t) + mset (missed t) + pending_change pc' = mset (notified s) + mset (missed s) + pending_change pc"
    and "mset (alarms t) + mset (missed_alarms t) + pending_alarm pc' = mset (alarms s) + mset (missed_alarms s) + pending_alarm pc"
  shows "delivery_ok t"
proof -
  note c = pending_move [OF assms(2,3), of pending_change] and a = pending_move [OF assms(2,3), of pending_alarm]
  have "mset (notified t) + mset (missed t) + pending pending_change t + pending_change pc =
      mset (notified s) + mset (missed s) + pending pending_change s + pending_change pc"
    unfolding add.assoc c using assms(6) by (simp add: ac_simps)
  moreover have "mset (alarms t) + mset (missed_alarms t) + pending pending_alarm t + pending_alarm pc =
      mset (alarms s) + mset (missed_alarms s) + pending pending_alarm s + pending_alarm pc"
    unfolding add.assoc a using assms(7) by (simp add: ac_simps)
  ultimately show ?thesis using assms(1,4,5) by (simp add: delivery_ok_def)
qed

lemma delivery_ok_step: "sm_step s t \<Longrightarrow> delivery_ok s \<Longrightarrow> delivery_ok t"
proof (induction rule: sm_step.induct)
  case (notify_null s i nxt prev al)
  show ?case
    by (rule delivery_ok_pass [OF notify_null(3,1), where pc' = "after_change al"]) (simp_all add: pending_alarm_change)
next
  case (notify s i nxt prev al)
  show ?case
    by (rule delivery_ok_pass [OF notify(2,1), where pc' = "after_change al"]) (simp_all add: pending_alarm_change)
next
  case (alarm_null s i a)
  show ?case by (rule delivery_ok_pass [OF alarm_null(3,1), where pc' = T_idle]) simp_all
next
  case (alarm s i a)
  show ?case by (rule delivery_ok_pass [OF alarm(2,1), where pc' = T_idle]) simp_all
next
  case (notify_copy s i nxt prev al)
  show ?case by (rule delivery_ok_local [OF notify_copy(3,1)]) (simp_all add: pending_alarm_change)
next
  case (set_state_cb s b)
  then show ?case by (simp add: delivery_ok_def pending_def)
next
  case (set_alarm_cb s b)
  then show ?case by (simp add: delivery_ok_def pending_def)
qed (auto intro: delivery_ok_write delivery_ok_local)

text \<open>With the callbacks installed nothing is missed.\<close>

lemma nothing_missed: "reach sm_begin installed_step s \<Longrightarrow> missed s = [] \<and> missed_alarms s = []"
proof (induction rule: reach.induct)
  case (reach_step s t)
  then show ?case by (auto simp: installed_step_def sm_write_def elim!: sm_step.cases)
qed (simp add: sm_begin_def)

lemma pending_all_idle:
  "set xs \<subseteq> {T_idle} \<Longrightarrow> f T_idle = {#} \<Longrightarrow> sum_list (map f xs) = {#}"
  by (induction xs) auto

lemma sm_begin_ok: "sm_begin s \<Longrightarrow> hist_ok s \<and> delivery_ok s"
  by (simp add: sm_begin_def hist_ok_def delivery_ok_def pending_def pending_all_idle)

lemma reach_sm_ok: "reach sm_begin sm_step s \<Longrightarrow> hist_ok s \<and> delivery_ok s"
  by (erule reach_invariant) (auto dest: sm_begin_ok hist_ok_step delivery_ok_step)

lemma set_update_subset: "x \<in> set (xs[i := y]) \<Longrightarrow> x \<in> set xs \<or> x = y"
  using set_update_subset_insert [of xs i y] by auto

lemma shut_quiet_step:
  assumes "sm_step s t" and "shut_quiet s"
  shows "shut_quiet t"
  using assms
proof (induction rule: sm_step.induct)
  case (halt_xchg s i)
  then have False by (metis shut_quiet_def at_pc_def nth_mem)
  then show ?case ..
qed (auto simp: shut_quiet_def sm_write_def at_pc_def after_change_def dest!: set_update_subset split: option.splits)

lemma shut_quiet_steps: "sm_step\<^sup>*\<^sup>* s t \<Longrightarrow> shut_quiet s \<Longrightarrow> shut_quiet t"
  by (induction rule: rtranclp_induct) (auto dest: shut_quiet_step)

text \<open>
  Two threads, as in the daemon: the bus thread (0) and the main thread (1). The bus thread passes
  the test of \<^verbatim>\<open>halt()\<close>, the main thread shuts down, the bus thread then exchanges the state.
\<close>

definition two_threads :: sm_sys where
  "two_threads = \<lparr>st = IDLE, pcs = [T_idle, T_idle], scb = True, acb = True, notified = [], alarms = [], hist = [],
     raised = [], missed = [], missed_alarms = []\<rparr>"

definition shut_during_halt :: sm_sys where
  "shut_during_halt = two_threads\<lparr>st := SHUTDOWN, pcs := [Halt_xchg, Notify SHUTDOWN IDLE None],
     hist := [(K_shutdown, IDLE, SHUTDOWN)]\<rparr>"

definition restarted :: sm_sys where
  "restarted = two_threads\<lparr>st := RUNNING, pcs := [Notify RUNNING IDLE None, T_idle],
     hist := [(K_shutdown, IDLE, SHUTDOWN), (K_halt, SHUTDOWN, IDLE), (K_start, IDLE, RUNNING)],
     notified := [(SHUTDOWN, IDLE), (IDLE, SHUTDOWN)]\<rparr>"

lemma reach_shut_during_halt: "reach sm_begin sm_step shut_during_halt"
proof -
  have r0: "reach sm_begin sm_step two_threads"
    by (rule reach_start) (simp add: sm_begin_def two_threads_def)
  have "sm_step two_threads (two_threads\<lparr>pcs := [Halt_xchg, T_idle]\<rparr>)"
    using halt_load [of two_threads 0] by (simp add: two_threads_def at_pc_def)
  with r0 have r1: "reach sm_begin sm_step (two_threads\<lparr>pcs := [Halt_xchg, T_idle]\<rparr>)"
    by (rule reach_step)
  have "sm_step (two_threads\<lparr>pcs := [Halt_xchg, T_idle]\<rparr>) shut_during_halt"
    using shutdown_xchg [of "two_threads\<lparr>pcs := [Halt_xchg, T_idle]\<rparr>" 1]
    by (simp add: two_threads_def shut_during_halt_def at_pc_def sm_write_def)
  with r1 show ?thesis by (rule reach_step)
qed

text \<open>The steps of one thread between two others, with the callback installed.\<close>

lemma announce_steps:
  assumes "at_pc s i (Notify nxt prev al)" "scb s"
  shows "sm_step\<^sup>*\<^sup>* s (s\<lparr>notified := notified s @ [(nxt, prev)], pcs := (pcs s)[i := after_change al]\<rparr>)"
proof -
  let ?t = "s\<lparr>pcs := (pcs s)[i := Calling nxt prev al]\<rparr>"
  have "sm_step s ?t" using assms by (rule notify_copy)
  moreover have "sm_step ?t (?t\<lparr>notified := notified ?t @ [(nxt, prev)], pcs := (pcs ?t)[i := after_change al]\<rparr>)"
    using assms(1) by (intro notify) (simp add: at_pc_def)
  ultimately show ?thesis by (simp add: converse_rtranclp_into_rtranclp)
qed

lemma shut_then_restarted: "sm_step\<^sup>*\<^sup>* shut_during_halt restarted"
proof -
  let ?a = "shut_during_halt\<lparr>pcs := [Halt_xchg, T_idle], notified := [(SHUTDOWN, IDLE)]\<rparr>"
  let ?b = "?a\<lparr>st := IDLE, pcs := [Notify IDLE SHUTDOWN None, T_idle],
    hist := [(K_shutdown, IDLE, SHUTDOWN), (K_halt, SHUTDOWN, IDLE)]\<rparr>"
  let ?c = "?b\<lparr>pcs := [T_idle, T_idle], notified := [(SHUTDOWN, IDLE), (IDLE, SHUTDOWN)]\<rparr>"
  let ?d = "?c\<lparr>pcs := [Start_cas IDLE, T_idle]\<rparr>"
  note [simp] = two_threads_def shut_during_halt_def restarted_def at_pc_def sm_write_def after_change_def
  have 1: "sm_step\<^sup>*\<^sup>* shut_during_halt ?a"
    using announce_steps [of shut_during_halt 1 SHUTDOWN IDLE None] by simp
  have 2: "sm_step ?a ?b" using halt_xchg [of ?a 0] by simp
  have 3: "sm_step\<^sup>*\<^sup>* ?b ?c" using announce_steps [of ?b 0 IDLE SHUTDOWN None] by simp
  have 4: "sm_step ?c ?d" using start_load [of ?c 0] by simp
  have 5: "sm_step ?d restarted" using start_win [of ?d 0 IDLE] by simp
  from 1 2 have "sm_step\<^sup>*\<^sup>* shut_during_halt ?b" by (rule rtranclp.rtrancl_into_rtrancl)
  from rtranclp_trans [OF this 3] 4 have "sm_step\<^sup>*\<^sup>* shut_during_halt ?d" by (rule rtranclp.rtrancl_into_rtrancl)
  then show ?thesis using 5 by (rule rtranclp.rtrancl_into_rtrancl)
qed

lemma reach_steps: "sm_step\<^sup>*\<^sup>* s t \<Longrightarrow> reach sm_begin sm_step s \<Longrightarrow> reach sm_begin sm_step t"
  by (induction rule: rtranclp_induct) (auto intro: reach_step)

lemma reach_restarted: "reach sm_begin sm_step restarted"
  by (rule reach_steps [OF shut_then_restarted reach_shut_during_halt])

text \<open>
  The main thread (1) has set FAULT and not announced it yet when the bus thread (0) starts the machine again and
  announces that; then the main thread announces its fault.
\<close>

definition fault_and_restart :: sm_sys where
  "fault_and_restart = two_threads\<lparr>st := RUNNING,
     hist := [(K_start, IDLE, RUNNING), (K_fault, RUNNING, FAULT), (K_start, FAULT, RUNNING)],
     notified := [(RUNNING, IDLE), (RUNNING, FAULT), (FAULT, RUNNING)],
     raised := [(''sensor0'', Fin 85, Fin 80)], alarms := [(''sensor0'', Fin 85, Fin 80)]\<rparr>"

lemma reach_installed: "reach sm_begin installed_step s \<Longrightarrow> reach sm_begin sm_step s"
  by (induction rule: reach.induct) (auto simp: installed_step_def intro: reach.intros)

lemma reach_fault_and_restart: "reach sm_begin installed_step fault_and_restart"
proof -
  let ?a = "(''sensor0'', Fin 85, Fin 80)"
  let ?n = "\<lambda>s i nxt prev al. s\<lparr>notified := notified s @ [(nxt, prev)], pcs := (pcs s)[i := after_change al]\<rparr>"
  let ?s1 = "two_threads\<lparr>pcs := [Start_cas IDLE, T_idle]\<rparr>"
  let ?s2 = "sm_write K_start RUNNING None 0 ?s1"
  let ?s3 = "?s2\<lparr>pcs := [Calling RUNNING IDLE None, T_idle]\<rparr>"
  let ?s4 = "?n ?s3 0 RUNNING IDLE None"
  let ?s5 = "sm_write K_fault FAULT (Some ?a) 1 ?s4"
  let ?s6 = "?s5\<lparr>pcs := [Start_cas FAULT, Notify FAULT RUNNING (Some ?a)]\<rparr>"
  let ?s7 = "sm_write K_start RUNNING None 0 ?s6"
  let ?s8 = "?s7\<lparr>pcs := [Calling RUNNING FAULT None, Notify FAULT RUNNING (Some ?a)]\<rparr>"
  let ?s9 = "?n ?s8 0 RUNNING FAULT None"
  let ?s10 = "?s9\<lparr>pcs := [T_idle, Calling FAULT RUNNING (Some ?a)]\<rparr>"
  let ?s11 = "?n ?s10 1 FAULT RUNNING (Some ?a)"
  let ?s12 = "?s11\<lparr>pcs := [T_idle, Alarming ?a]\<rparr>"
  note [simp] = two_threads_def at_pc_def sm_write_def after_change_def installed_step_def
  have "reach sm_begin installed_step two_threads" by (rule reach_start) (simp add: sm_begin_def)
  then have "reach sm_begin installed_step ?s1" by (rule reach_step) (use start_load [of two_threads 0] in simp)
  then have "reach sm_begin installed_step ?s2" by (rule reach_step) (use start_win [of ?s1 0 IDLE] in simp)
  then have "reach sm_begin installed_step ?s3" by (rule reach_step) (use notify_copy [of ?s2 0 RUNNING IDLE None] in simp)
  then have "reach sm_begin installed_step ?s4" by (rule reach_step) (use notify [of ?s3 0 RUNNING IDLE None] in simp)
  then have "reach sm_begin installed_step ?s5" by (rule reach_step) (use fault_win [of ?s4 1] in simp)
  then have "reach sm_begin installed_step ?s6" by (rule reach_step) (use start_load [of ?s5 0] in simp)
  then have "reach sm_begin installed_step ?s7" by (rule reach_step) (use start_win [of ?s6 0 FAULT] in simp)
  then have "reach sm_begin installed_step ?s8" by (rule reach_step) (use notify_copy [of ?s7 0 RUNNING FAULT None] in simp)
  then have "reach sm_begin installed_step ?s9" by (rule reach_step) (use notify [of ?s8 0 RUNNING FAULT None] in simp)
  then have "reach sm_begin installed_step ?s10" by (rule reach_step) (use notify_copy [of ?s9 1 FAULT RUNNING "Some ?a"] in simp)
  then have "reach sm_begin installed_step ?s11" by (rule reach_step) (use notify [of ?s10 1 FAULT RUNNING "Some ?a"] in simp)
  then have "reach sm_begin installed_step ?s12" by (rule reach_step) (use alarm_copy [of ?s11 1 ?a] in simp)
  then show ?thesis by (rule reach_step) (use alarm [of ?s12 1 ?a] in \<open>simp add: fault_and_restart_def\<close>)
qed

subsection \<open>Properties\<close>

text \<open>
  C18. Whatever the interleaving, the writes of the state form one unbroken sequence from IDLE to
  the current state, each starting where the one before ended, and each is one its method may
  make: \<^verbatim>\<open>start\<close> only from IDLE or FAULT to RUNNING, \<^verbatim>\<open>fault\<close> only from RUNNING to FAULT, \<^verbatim>\<open>halt\<close> only
  to IDLE, \<^verbatim>\<open>shutdown\<close> only to SHUTDOWN. No update is lost.
\<close>

theorem concurrent_writes_are_linear:
  assumes "reach sm_begin sm_step s"
  shows "links IDLE (hist s) (st s) \<and> list_all legal_write (hist s)"
  using reach_sm_ok [OF assms] by (simp add: hist_ok_def)

theorem concurrent_writes_are_linear_witness:
  "reach sm_begin sm_step restarted \<and> links IDLE (hist restarted) (st restarted) \<and>
     list_all legal_write (hist restarted)"
  using concurrent_writes_are_linear [OF reach_restarted] reach_restarted by blast

text \<open>
  C19. Every state change is announced exactly once with its own new and previous state, and every
  fault that took effect raises exactly one alarm: at any moment the announced ones together with
  the ones some thread is still about to announce are the ones that happened. This is so as long as the callbacks
  are installed; what a thread finds no callback for is passed over, and is all that is missing otherwise.
\<close>

theorem notifications_exactly_once:
  assumes "reach sm_begin sm_step s"
  shows "mset (map (\<lambda>(k, prev, nxt). (nxt, prev)) (hist s)) =
      mset (notified s) + mset (missed s) + pending pending_change s \<and>
    mset (raised s) = mset (alarms s) + mset (missed_alarms s) + pending pending_alarm s \<and>
    (reach sm_begin installed_step s \<longrightarrow> missed s = [] \<and> missed_alarms s = [])"
  using reach_sm_ok [OF assms] nothing_missed [of s] by (simp add: delivery_ok_def)

theorem notifications_exactly_once_witness:
  "reach sm_begin installed_step fault_and_restart \<and> hist fault_and_restart \<noteq> [] \<and>
   mset (map (\<lambda>(k, prev, nxt). (nxt, prev)) (hist fault_and_restart)) =
      mset (notified fault_and_restart) + pending pending_change fault_and_restart \<and>
    mset (raised fault_and_restart) = mset (alarms fault_and_restart) + pending pending_alarm fault_and_restart"
  using notifications_exactly_once [OF reach_installed [OF reach_fault_and_restart]] reach_fault_and_restart
  by (simp add: fault_and_restart_def)

text \<open>
  C20. A shutdown that no halt overlaps is final: from a state that is SHUTDOWN while no thread
  stands between the test and the exchange of \<^verbatim>\<open>halt()\<close>, every later state is SHUTDOWN.
\<close>

theorem shutdown_final_without_overlapping_halt:
  assumes "sm_step\<^sup>*\<^sup>* s t" and "st s = SHUTDOWN" and "Halt_xchg \<notin> set (pcs s)"
  shows "st t = SHUTDOWN"
  using shut_quiet_steps [OF assms(1)] assms(2,3) by (simp add: shut_quiet_def)

theorem shutdown_final_without_overlapping_halt_witness:
  "\<exists>s t. sm_step\<^sup>*\<^sup>* s t \<and> st s = SHUTDOWN \<and> Halt_xchg \<notin> set (pcs s) \<and> s \<noteq> t \<and> st t = SHUTDOWN"
proof -
  let ?s = "two_threads\<lparr>st := SHUTDOWN\<rparr>"
  let ?t = "?s\<lparr>pcs := [Start_cas SHUTDOWN, T_idle]\<rparr>"
  have "sm_step ?s ?t" using start_load [of ?s 0] by (simp add: two_threads_def at_pc_def)
  then have s: "sm_step\<^sup>*\<^sup>* ?s ?t" "st ?s = SHUTDOWN" "Halt_xchg \<notin> set (pcs ?s)"
    by (simp_all add: two_threads_def)
  have "st ?t = SHUTDOWN" by (rule shutdown_final_without_overlapping_halt [OF s])
  moreover have "?s \<noteq> ?t" by (simp add: two_threads_def)
  ultimately show ?thesis using s by blast
qed

text \<open>
  C21. A \<^verbatim>\<open>halt()\<close> that overlaps a \<^verbatim>\<open>shutdown()\<close> undoes it: the test and the exchange of \<^verbatim>\<open>halt()\<close> are
  two separate accesses, so a machine that has reached SHUTDOWN can be moved to IDLE and then be
  started again, although the header promises that \<^verbatim>\<open>halt()\<close> does nothing from SHUTDOWN.
\<close>

theorem overlapping_halt_undoes_shutdown:
  "\<exists>s t. reach sm_begin sm_step s \<and> st s = SHUTDOWN \<and> sm_step\<^sup>*\<^sup>* s t \<and> st t = RUNNING"
proof -
  have "st shut_during_halt = SHUTDOWN" "st restarted = RUNNING"
    by (simp_all add: shut_during_halt_def restarted_def)
  with reach_shut_during_halt shut_then_restarted show ?thesis by blast
qed

text \<open>
  C33. Announcements can come out of order: a method writes the state and calls the callback in separate steps, so a
  \<^verbatim>\<open>start()\<close> of the bus thread can fall between the fault of the main thread and its announcement. All calls then
  have ended and the machine is RUNNING, but the last announcement, which the daemon sends to its clients
  as a signal, says that it went from RUNNING to FAULT, and the announcements link up to no run of the machine.
\<close>

theorem announcements_out_of_order:
  "\<exists>s. reach sm_begin installed_step s \<and> set (pcs s) = {T_idle} \<and> st s = RUNNING \<and> last (notified s) = (FAULT, RUNNING) \<and>
     length (notified s) = length (hist s) \<and> alarms s = raised s \<and> \<not> announced_run IDLE (notified s) (st s)"
  using reach_fault_and_restart
  by (intro exI [of _ fault_and_restart]) (simp add: fault_and_restart_def two_threads_def)

end
