(* ===== verification/Frame_Protocol.thy ===== *)
theory Frame_Protocol
  imports Edge_Prelude
begin

text \<open>
  The binary frame protocol of the telemetry server: \<^verbatim>\<open>crc16\<close>, \<^verbatim>\<open>Frame::serialize\<close> and
  \<^verbatim>\<open>Frame::deserialize\<close>, and the \<^verbatim>\<open>SensorFrame\<close> payload. Integers keep their width. A write past
  the end of a vector is undefined behaviour (\<^const>\<open>None\<close>); \<^verbatim>\<open>std::invalid_argument\<close> is \<open>Inl\<close> with
  its message. The cyclic redundancy check is compared with polynomial division over the two-element
  field, and shown to detect every corruption of two neighbouring bytes.
\<close>

subsection \<open>Bytes\<close>

text \<open>Copying into a vector at an offset (\<^verbatim>\<open>memcpy\<close> or a run of indexed writes).\<close>

definition blit :: "'a list \<Rightarrow> nat \<Rightarrow> 'a list \<Rightarrow> 'a list option" where
  "blit buf off xs =
     (if off + length xs \<le> length buf
      then Some (take off buf @ xs @ drop (off + length xs) buf) else None)"

text \<open>Big-endian bytes of a value (\<^verbatim>\<open>htonl\<close> or \<^verbatim>\<open>htons\<close>, then \<^verbatim>\<open>memcpy\<close>) and back.\<close>

definition be16 :: "u16 \<Rightarrow> bytes" where
  "be16 w = [ucast (drop_bit 8 w), ucast w]"

definition be32 :: "u32 \<Rightarrow> bytes" where
  "be32 w = [ucast (drop_bit 24 w), ucast (drop_bit 16 w), ucast (drop_bit 8 w), ucast w]"

definition of_be16 :: "bytes \<Rightarrow> u16" where
  "of_be16 bs = push_bit 8 (ucast (bs ! 0)) OR ucast (bs ! 1)"

definition of_be32 :: "bytes \<Rightarrow> u32" where
  "of_be32 bs =
     push_bit 24 (ucast (bs ! 0)) OR push_bit 16 (ucast (bs ! 1)) OR
     push_bit 8 (ucast (bs ! 2)) OR ucast (bs ! 3)"

text \<open>Little-endian bytes, the host order of the supported targets.\<close>

definition le_bytes :: "nat \<Rightarrow> 'a::len word \<Rightarrow> bytes" where
  "le_bytes n w = map (\<lambda>i. ucast (drop_bit (8 * i) w)) [0..<n]"

fun of_le_bytes :: "bytes \<Rightarrow> 'a::len word" where
  "of_le_bytes [] = 0"
| "of_le_bytes (b # bs) = ucast b OR push_bit 8 (of_le_bytes bs)"

subsection \<open>Frames\<close>

definition MsgType_AUTH :: u8 where "MsgType_AUTH = 0x01"
definition MsgType_TELEMETRY :: u8 where "MsgType_TELEMETRY = 0x02"
definition MsgType_ACK :: u8 where "MsgType_ACK = 0x03"
definition MsgType_ERROR :: u8 where "MsgType_ERROR = 0x04"

definition MAGIC :: bytes where
  "MAGIC = [0x4E, 0x45, 0x58, 0x54]"

definition VERSION :: u8 where
  "VERSION = 0x01"

record frame =
  msg_type :: u8
  payload :: bytes

definition new_frame :: frame where
  "new_frame = \<lparr>msg_type = MsgType_AUTH, payload = []\<rparr>"

definition crc_bit :: "u16 \<Rightarrow> u16" where
  "crc_bit crc =
     (if crc AND 0x8000 \<noteq> 0 then ucast (push_bit 1 (ucast crc :: u32) XOR 0x1021)
      else ucast (push_bit 1 (ucast crc :: u32)))"

definition crc_byte :: "u16 \<Rightarrow> u8 \<Rightarrow> u16" where
  "crc_byte crc b = (crc_bit ^^ 8) (crc XOR push_bit 8 (ucast b))"

definition crc16 :: "bytes \<Rightarrow> u16" where
  "crc16 data = foldl crc_byte 0xFFFF data"

text \<open>
  The buffer has \<^verbatim>\<open>12 + plen\<close> bytes, a sum of 32-bit unsigned integers, which wraps around for a
  payload within twelve bytes of four gigabytes.
\<close>

definition serialize :: "frame \<Rightarrow> bytes option" where
  "serialize f = do {
     let plen = (of_nat (length (payload f)) :: u32);
     let chk = crc16 (payload f);
     let buf = replicate (unat (12 + plen)) 0;
     buf \<leftarrow> blit buf 0 MAGIC;
     buf \<leftarrow> blit buf 4 [VERSION];
     buf \<leftarrow> blit buf 5 [msg_type f];
     buf \<leftarrow> blit buf 6 (be32 plen);
     buf \<leftarrow> blit buf 10 (be16 chk);
     if 0 < plen then blit buf 12 (take (unat plen) (payload f)) else Some buf
   }"

definition deserialize :: "bytes \<Rightarrow> string + frame" where
  "deserialize buf =
     (if length buf < 12 then Inl ''buffer too small''
      else if take 4 buf \<noteq> MAGIC then Inl ''bad magic''
      else if buf ! 4 \<noteq> VERSION then Inl ''unsupported version''
      else
        let plen = of_be32 (take 4 (drop 6 buf));
            expected_crc = of_be16 (take 2 (drop 10 buf))
        in if length buf < 12 + unat plen then Inl ''buffer too short for payload''
           else
             let f = \<lparr>msg_type = buf ! 5, payload = take (unat plen) (drop 12 buf)\<rparr>
             in if crc16 (payload f) \<noteq> expected_crc then Inl ''CRC mismatch'' else Inr f)"

text \<open>The header as the structure \<^verbatim>\<open>FrameHeader\<close> lays it out.\<close>

definition header :: "u8 \<Rightarrow> u32 \<Rightarrow> u16 \<Rightarrow> bytes" where
  "header t plen chk = MAGIC @ [VERSION, t] @ be32 plen @ be16 chk"

subsection \<open>SensorFrame\<close>

text \<open>The \<^verbatim>\<open>double\<close> travels as its 64-bit pattern.\<close>

record sensor_frame =
  sf_sensor_id :: u32
  sf_timestamp_us :: u64
  sf_value :: u64

definition sf_serialize :: "sensor_frame \<Rightarrow> bytes" where
  "sf_serialize sf =
     le_bytes 4 (sf_sensor_id sf) @ le_bytes 8 (sf_timestamp_us sf) @ le_bytes 8 (sf_value sf)"

subsection \<open>Reference: polynomial division\<close>

text \<open>
  A natural number is a polynomial over the two-element field, bit \<open>i\<close> the coefficient of \<open>x\<^sup>i\<close>;
  addition is \<open>XOR\<close>. The generator is \<open>x\<^sup>1\<^sup>6 + x\<^sup>1\<^sup>2 + x\<^sup>5 + 1\<close>.
\<close>

fun clmul :: "nat \<Rightarrow> nat \<Rightarrow> nat" where
  "clmul a b = (if a = 0 then 0 else (if odd a then b else 0) XOR clmul (a div 2) (2 * b))"

definition GENERATOR :: nat where
  "GENERATOR = 0x11021"

definition poly_of :: "bytes \<Rightarrow> nat" where
  "poly_of bs = foldl (\<lambda>p b. push_bit 8 p XOR unat b) 0 bs"

definition gf2_multiple :: "nat \<Rightarrow> bool" where
  "gf2_multiple n \<longleftrightarrow> (\<exists>q. n = clmul q GENERATOR)"

declare clmul.simps [simp del]

subsection \<open>Byte order\<close>

lemma blit_exact: "off = length xs \<Longrightarrow> length ys = length zs \<Longrightarrow> blit (xs @ zs @ rest) off ys = Some (xs @ ys @ rest)"
  by (simp add: blit_def)

lemma be_lengths [simp]: "length (be16 w) = 2" "length (be32 v) = 4" "length MAGIC = 4"
  by (simp_all add: be16_def be32_def MAGIC_def)

lemma of_be16_be16 [simp]: "of_be16 (be16 w) = w"
  by (rule bit_word_eqI) (auto simp: of_be16_def be16_def bit_simps)

lemma of_be32_be32 [simp]: "of_be32 (be32 w) = w"
proof (rule bit_word_eqI)
  fix n assume "n < LENGTH(32)"
  then consider "n < 8" | "8 \<le> n" "n < 16" | "16 \<le> n" "n < 24" | "24 \<le> n" "n < 32" by fastforce
  then show "bit (of_be32 (be32 w)) n = bit w n"
    by cases (auto simp: of_be32_def be32_def bit_simps)
qed

lemma be32_of_be32: "be32 (of_be32 [a, b, c, d]) = [a, b, c, d]"
  by (auto simp: of_be32_def be32_def intro!: bit_word_eqI)
    (auto simp: bit_simps dest: bit_imp_le_length)

lemma length_le_bytes [simp]: "length (le_bytes n w) = n"
  by (simp add: le_bytes_def)

lemma be16_of_be16: "be16 (of_be16 [a, b]) = [a, b]"
  by (auto simp: of_be16_def be16_def intro!: bit_word_eqI)
    (auto simp: bit_simps dest: bit_imp_le_length)

lemma bit_of_le_bytes:
  "bit (of_le_bytes bs :: 'a::len word) i \<longleftrightarrow>
     i < LENGTH('a) \<and> i < 8 * length bs \<and> bit (bs ! (i div 8)) (i mod 8)"
proof (induction bs arbitrary: i)
  case Nil
  then show ?case by simp
next
  case (Cons b bs)
  show ?case
  proof (cases "i < 8")
    case True
    then show ?thesis by (auto simp: bit_simps dest: bit_imp_le_length)
  next
    case False
    then obtain j where i: "i = j + 8" by (metis add.commute le_Suc_ex not_less)
    have "\<not> bit b i" using False by (auto dest: bit_imp_le_length)
    then show ?thesis using Cons.IH [of j] i by (auto simp: bit_simps)
  qed
qed

lemma of_le_bytes_le_bytes: "LENGTH('a::len) \<le> 8 * n \<Longrightarrow> of_le_bytes (le_bytes n (w :: 'a word)) = w"
  by (rule bit_word_eqI) (auto simp: bit_of_le_bytes le_bytes_def bit_simps)

subsection \<open>The check is linear and loses nothing\<close>

lemma funpow_8: "(f ^^ 8) x = f (f (f (f (f (f (f (f x)))))))"
  by (simp add: eval_nat_numeral)

lemma bit_shift1:
  "bit (push_bit (Suc 0) (r :: 'a::len word)) n \<longleftrightarrow> 0 < n \<and> n < LENGTH('a) \<and> bit r (n - 1)"
  by (auto simp: bit_push_bit_iff simp del: push_bit_Suc)

lemma ucast_xor: "ucast (a XOR b) = (ucast a XOR ucast b :: 'b::len word)"
  by (rule bit_word_eqI) (auto simp: bit_simps)

lemma crc_bit_eq: "crc_bit r = push_bit 1 r XOR (if bit r 15 then 0x1021 else 0)"
proof -
  have "r AND 0x8000 \<noteq> 0 \<longleftrightarrow> bit r 15"
    using bit_iff_and_push_bit_not_eq_0 [of r 15] by simp
  moreover have s: "ucast (push_bit 1 (ucast r :: u32)) = push_bit 1 r"
    by (rule bit_word_eqI) (auto simp: bit_shift1 bit_ucast_iff simp del: push_bit_Suc)
  ultimately show ?thesis by (simp add: crc_bit_def ucast_xor del: push_bit_Suc)
qed

lemma crc_bit_xor: "crc_bit (a XOR b) = crc_bit a XOR crc_bit b"
  by (auto simp: crc_bit_eq bit_xor_iff push_bit_xor xor.assoc xor.left_commute simp del: push_bit_Suc)

lemma crc_bit_eq_0: "crc_bit r = 0 \<longleftrightarrow> r = 0"
proof
  assume z: "crc_bit r = 0"
  have b: "\<not> bit r 15"
  proof
    assume "bit r 15"
    then have "bit (crc_bit r) 0" by (simp add: crc_bit_eq bit_xor_iff bit_shift1 del: push_bit_Suc)
    with z show False by simp
  qed
  have "bit r n = bit (crc_bit r) (Suc n)" if "n < 15" for n
    using that b by (simp add: crc_bit_eq bit_shift1 del: push_bit_Suc)
  with b z have "\<not> bit r n" if "n < 16" for n
    using that by (cases "n = 15") auto
  then show "r = 0" by (intro bit_word_eqI) simp
qed (simp add: crc_bit_eq)

lemma crc_bits_xor: "(crc_bit ^^ n) (a XOR b) = (crc_bit ^^ n) a XOR (crc_bit ^^ n) b"
  by (induction n) (simp_all add: crc_bit_xor)

lemma crc_bits_eq_0: "(crc_bit ^^ n) r = 0 \<longleftrightarrow> r = 0"
  by (induction n) (simp_all add: crc_bit_eq_0)

text \<open>A register with a clear top byte is only shifted by eight rounds.\<close>

lemma crc_bits_shift: "n \<le> 8 \<Longrightarrow> (crc_bit ^^ n) (ucast (b :: u8)) = push_bit n (ucast b)"
proof (induction n)
  case 0
  then show ?case by simp
next
  case (Suc n)
  then have "\<not> bit (push_bit n (ucast b :: u16)) 15"
    by (auto simp: bit_simps dest: bit_imp_le_length)
  with Suc show ?case by (simp add: crc_bit_eq push_bit_push_bit del: push_bit_Suc)
qed

lemma word_xor_eq_0: "a XOR b = 0 \<longleftrightarrow> a = (b :: 'a::len word)"
  by (auto simp: bit_eq_iff bit_xor_iff)

lemma crc_byte_xor: "crc_byte s a XOR crc_byte t b = (crc_bit ^^ 8) ((s XOR t) XOR push_bit 8 (ucast (a XOR b)))"
proof -
  have "(s XOR push_bit 8 (ucast a)) XOR (t XOR push_bit 8 (ucast b)) =
      (s XOR t) XOR push_bit 8 (ucast (a XOR b))"
    by (simp only: ucast_xor push_bit_xor ac_simps)
  then show ?thesis unfolding crc_byte_def crc_bits_xor [symmetric] by (rule arg_cong)
qed

lemma foldl_crc_inj: "foldl crc_byte s xs = foldl crc_byte t xs \<Longrightarrow> s = t"
proof (induction xs arbitrary: s t)
  case Nil
  then show ?case by simp
next
  case (Cons x xs)
  then have "crc_byte s x = crc_byte t x" by simp
  then have "crc_byte s x XOR crc_byte t x = 0" by (simp only: word_xor_eq_0)
  then have "(s XOR t) XOR push_bit 8 (ucast (x XOR x)) = 0"
    by (simp only: crc_byte_xor crc_bits_eq_0)
  then have "s XOR t = 0" by simp
  then show "s = t" by (simp only: word_xor_eq_0)
qed

lemma crc_two_bytes_inj:
  assumes "crc_byte (crc_byte s a1) a2 = crc_byte (crc_byte s b1) b2"
  shows "a1 = b1 \<and> a2 = b2"
proof -
  let ?d1 = "a1 XOR b1" and ?d2 = "a2 XOR b2"
  have "crc_byte (crc_byte s a1) a2 XOR crc_byte (crc_byte s b1) b2 = 0"
    using assms by (simp only: word_xor_eq_0)
  then have "(crc_byte s a1 XOR crc_byte s b1) XOR push_bit 8 (ucast ?d2) = 0"
    unfolding crc_byte_xor [of "crc_byte s a1"] by (simp only: crc_bits_eq_0)
  then have "(crc_bit ^^ 8) (push_bit 8 (ucast ?d1)) XOR (crc_bit ^^ 8) (ucast ?d2) = 0"
    by (simp only: crc_byte_xor crc_bits_shift [OF order_refl] xor_self_eq xor.left_neutral)
  then have "push_bit 8 (ucast ?d1 :: u16) XOR ucast ?d2 = 0"
    unfolding crc_bits_xor [symmetric] by (simp only: crc_bits_eq_0)
  then have z: "push_bit 8 (ucast ?d1) = (ucast ?d2 :: u16)" by (simp only: word_xor_eq_0)
  have b: "\<not> bit ?d2 n \<and> \<not> bit ?d1 n" if "n < 8" for n
  proof -
    have "bit (push_bit 8 (ucast ?d1 :: u16)) n = bit (ucast ?d2 :: u16) n"
      "bit (push_bit 8 (ucast ?d1 :: u16)) (n + 8) = bit (ucast ?d2 :: u16) (n + 8)"
      by (simp_all only: z)
    with that bit_imp_le_length [of ?d2 "n + 8"] show ?thesis
      by (auto simp: bit_push_bit_iff bit_ucast_iff)
  qed
  then have "?d1 = 0" "?d2 = 0" by (simp_all add: bit_eq_iff)
  then show ?thesis by (simp only: word_xor_eq_0)
qed

subsection \<open>The check is the remainder of a polynomial division\<close>

lemma clmul_0 [simp]: "clmul 0 b = 0"
  by (simp add: clmul.simps [of 0])

lemma xor_cancel_left_nat [simp]: "m XOR (m XOR n) = (n :: nat)"
  by (simp flip: xor.assoc)

lemma double_xor_nat: "2 * (m XOR n) = 2 * m XOR 2 * (n :: nat)"
  by (rule bit_eqI) (auto simp: bit_double_iff bit_xor_iff)

lemma half_xor_nat: "(m XOR n) div 2 = (m div 2) XOR (n div 2 :: nat)"
  by (rule bit_eqI) (simp add: bit_xor_iff flip: bit_Suc)

lemma odd_xor_nat: "odd (m XOR n :: nat) \<longleftrightarrow> odd m \<noteq> odd n"
  using bit_xor_iff [of m n 0] by (simp add: bit_0)

lemma clmul_unfold: "clmul a b = (if odd a then b else 0) XOR clmul (a div 2) (2 * b)"
  by (cases "a = 0") (simp_all add: clmul.simps [of a])

lemma clmul_double_right: "clmul a (2 * b) = 2 * clmul a b"
proof (induction a b rule: clmul.induct)
  case (1 a b)
  then show ?case
    by (cases "a = 0") (simp_all add: clmul_unfold [of a] double_xor_nat)
qed

lemma clmul_double_left: "clmul (2 * a) b = 2 * clmul a b"
  by (simp add: clmul_unfold [of "2 * a"] clmul_double_right)

lemma clmul_xor_left: "clmul (a XOR b) c = clmul a c XOR clmul b c"
proof (induction a c arbitrary: b rule: clmul.induct)
  case (1 a c)
  show ?case
  proof (cases "a = 0")
    case False
    show ?thesis
      unfolding clmul_unfold [of "a XOR b"] clmul_unfold [of a] clmul_unfold [of b]
        half_xor_nat odd_xor_nat 1 [OF False, of "b div 2"]
      by (auto simp: ac_simps xor.left_commute)
  qed simp
qed

lemma gf2_multiple_0 [simp]: "gf2_multiple 0"
  unfolding gf2_multiple_def by (rule exI [of _ 0]) simp

lemma gf2_multiple_generator: "gf2_multiple GENERATOR"
  unfolding gf2_multiple_def by (rule exI [of _ 1]) (simp add: clmul_unfold [of "Suc 0"])

lemma gf2_multiple_xor: "gf2_multiple m \<Longrightarrow> gf2_multiple n \<Longrightarrow> gf2_multiple (m XOR n)"
  unfolding gf2_multiple_def by (metis clmul_xor_left)

lemma gf2_multiple_push: "gf2_multiple m \<Longrightarrow> gf2_multiple (push_bit n m)"
proof (induction n arbitrary: m)
  case (Suc n)
  from Suc.prems have "gf2_multiple (m * 2)"
    unfolding gf2_multiple_def by (metis clmul_double_left mult.commute)
  with Suc.IH show ?case by simp
qed simp

text \<open>One round doubles the register modulo the generator.\<close>

lemma shift_out_bit:
  "push_bit 1 (unat (r :: u16)) XOR unat (push_bit 1 r) = (if bit r 15 then 2 ^ 16 else 0)"
proof -
  define k :: nat where "k = 2 ^ 16"
  have k: "bit k n \<longleftrightarrow> n = 16" for n
    unfolding k_def bit_exp_iff by simp
  have "bit (push_bit 1 (unat r) XOR unat (push_bit 1 r)) n = bit (if bit r 15 then k else 0) n" for n
    using bit_imp_le_length [of r "n - 1"]
    by (cases "n = 16")
      (auto simp: bit_xor_iff bit_push_bit_iff bit_unsigned_iff bit_shift1 k simp del: push_bit_Suc)
  then show ?thesis unfolding k_def [symmetric] by (rule bit_eqI)
qed

lemma crc_bit_poly: "gf2_multiple (push_bit 1 (unat r) XOR unat (crc_bit r))"
proof (cases "bit r 15")
  case True
  have "push_bit 1 (unat r) XOR unat (crc_bit r) = (push_bit 1 (unat r) XOR unat (push_bit 1 r)) XOR 0x1021"
    unfolding crc_bit_eq using True by (simp add: unsigned_xor_eq xor.assoc del: push_bit_Suc)
  also have "\<dots> = GENERATOR"
    unfolding shift_out_bit using True by (simp add: GENERATOR_def)
  finally show ?thesis by (simp only: gf2_multiple_generator)
next
  case False
  then show ?thesis
    unfolding crc_bit_eq using shift_out_bit [of r] by (simp del: push_bit_Suc)
qed

lemma push_chain:
  "push_bit (m + n) a XOR t = push_bit m (push_bit n a XOR s) XOR (push_bit m s XOR (t :: nat))"
  by (simp only: push_bit_xor push_bit_push_bit xor.assoc xor_cancel_left_nat)

lemma crc_bits_poly: "gf2_multiple (push_bit n (unat r) XOR unat ((crc_bit ^^ n) r))"
proof (induction n)
  case (Suc n)
  let ?s = "(crc_bit ^^ n) r"
  have "(crc_bit ^^ Suc n) r = crc_bit ?s" by simp
  moreover have "Suc n = 1 + n" by simp
  ultimately show ?case
    using gf2_multiple_xor [OF gf2_multiple_push [OF Suc.IH, of 1] crc_bit_poly [of ?s]]
    by (simp only: push_chain [of 1 n "unat r" "unat (crc_bit ?s)" "unat ?s"])
qed simp

lemma unat_high_byte: "unat (push_bit 8 (ucast (b :: u8)) :: u16) = push_bit 8 (unat b)"
proof (rule bit_eqI)
  fix n
  show "bit (unat (push_bit 8 (ucast b) :: u16)) n = bit (push_bit 8 (unat b)) n"
    using bit_imp_le_length [of b "n - 8"] by (auto simp: bit_unsigned_iff bit_push_bit_iff)
qed

lemma xor_regroup:
  "(p XOR b) XOR f XOR t = (p XOR f XOR c) XOR ((c XOR b) XOR (t :: nat))"
proof -
  have "(p XOR f XOR c) XOR ((c XOR b) XOR t) = p XOR f XOR (c XOR (c XOR (b XOR t)))"
    by (simp only: xor.assoc)
  also have "\<dots> = (p XOR b) XOR f XOR t"
    by (simp only: xor_cancel_left_nat xor.assoc xor.left_commute [of f b])
  finally show ?thesis ..
qed

lemma crc_fold_poly:
  "gf2_multiple (push_bit 16 (poly_of xs) XOR push_bit (8 * length xs) 0xFFFF XOR
     unat (foldl crc_byte 0xFFFF xs))"
proof (induction xs rule: rev_induct)
  case Nil
  then show ?case by (simp add: poly_of_def)
next
  case (snoc b xs)
  let ?c = "foldl crc_byte 0xFFFF xs"
  let ?r = "?c XOR push_bit 8 (ucast b)"
  have r: "push_bit 8 (unat ?r) = push_bit 8 (unat ?c) XOR push_bit 8 (push_bit 8 (unat b))"
    by (simp only: unsigned_xor_eq unat_high_byte push_bit_xor)
  have p: "push_bit 16 (poly_of (xs @ [b])) = push_bit 8 (push_bit 16 (poly_of xs)) XOR push_bit 8 (push_bit 8 (unat b))"
    by (simp add: poly_of_def push_bit_xor push_bit_push_bit)
  have f: "push_bit (8 * length (xs @ [b])) (0xFFFF :: nat) = push_bit 8 (push_bit (8 * length xs) 0xFFFF)"
    by (simp only: push_bit_push_bit) simp
  have t: "foldl crc_byte 0xFFFF (xs @ [b]) = (crc_bit ^^ 8) ?r"
    by (simp only: foldl_append foldl.simps crc_byte_def)
  show ?case
    using gf2_multiple_xor [OF gf2_multiple_push [OF snoc.IH, of 8] crc_bits_poly [of 8 ?r]]
    unfolding p f t r push_bit_xor
    by (subst xor_regroup [where c = "push_bit 8 (unat ?c)"])
qed

subsection \<open>Encoder and decoder\<close>

lemma plen_value: "length (payload f) < 2 ^ 32 \<Longrightarrow> unat (of_nat (length (payload f)) :: u32) = length (payload f)"
  by (simp add: unat_of_nat take_bit_nat_eq_self)

lemma plus12_no_wrap:
  assumes "unat (n :: u32) < 2 ^ 32 - 12"
  shows "unat (12 + n) = 12 + unat n"
  using assms by (simp add: unat_word_ariths)

lemma length_header [simp]: "length (header t plen chk) = 12"
  by (simp add: header_def)

lemma serialize_layout:
  assumes "length (payload f) < 2 ^ 32 - 12"
  shows "serialize f = Some (header (msg_type f) (of_nat (length (payload f))) (crc16 (payload f)) @ payload f)"
proof -
  let ?n = "length (payload f)"
  let ?z = "\<lambda>k. replicate k (0 :: u8)"
  have n: "unat (of_nat ?n :: u32) = ?n" using assms by (simp add: plen_value)
  have buf: "?z (unat (12 + of_nat ?n :: u32)) = ?z 4 @ ?z 1 @ ?z 1 @ ?z 4 @ ?z 2 @ ?z ?n"
    using assms plus12_no_wrap [of "of_nat ?n"] unfolding n replicate_add [symmetric] by simp
  have pos: "0 < (of_nat ?n :: u32) \<longleftrightarrow> payload f \<noteq> []"
    using n by (auto simp: word_less_nat_alt)
  show ?thesis
    unfolding serialize_def Let_def buf
    by (simp add: blit_def header_def n pos)
qed

lemma deserialize_layout:
  "deserialize (header t plen chk @ data) =
     (if length data < unat plen then Inl ''buffer too short for payload''
      else if crc16 (take (unat plen) data) \<noteq> chk then Inl ''CRC mismatch''
      else Inr \<lparr>msg_type = t, payload = take (unat plen) data\<rparr>)"
proof -
  let ?b = "header t plen chk @ data"
  have m: "take 4 ?b = MAGIC" "?b ! 4 = VERSION" "?b ! 5 = t"
    by (simp_all add: header_def nth_append)
  have f: "take 4 (drop 6 ?b) = be32 plen" "take 2 (drop 10 ?b) = be16 chk" "drop 12 ?b = data"
    by (simp_all add: header_def)
  show ?thesis
    unfolding deserialize_def Let_def m f by (simp add: nat_add_left_cancel_less)
qed

lemma be_of_be:
  "length xs = 2 \<Longrightarrow> be16 (of_be16 xs) = xs"
  "length ys = 4 \<Longrightarrow> be32 (of_be32 ys) = ys"
  using be16_of_be16 be32_of_be32 by (auto simp: numeral_eq_Suc length_Suc_conv)

lemma drop_split: "drop n xs = take k (drop n xs) @ drop (n + k) xs"
  by (metis append_take_drop_id drop_drop add.commute)

lemma header_cases:
  assumes "12 \<le> length buf" "take 4 buf = MAGIC" "buf ! 4 = VERSION"
  obtains t plen chk data where "buf = header t plen chk @ data"
proof -
  let ?p = "take 4 (drop 6 buf)" and ?c = "take 2 (drop 10 buf)"
  have 4: "drop 4 buf = VERSION # buf ! 5 # drop 6 buf"
    using assms(1,3) Cons_nth_drop_Suc [of 4 buf] Cons_nth_drop_Suc [of 5 buf] by simp
  have 6: "drop 6 buf = ?p @ ?c @ drop 12 buf"
    using drop_split [of 6 buf 4] drop_split [of 10 buf 2] by simp
  have "header (buf ! 5) (of_be32 ?p) (of_be16 ?c) @ drop 12 buf =
      MAGIC @ VERSION # buf ! 5 # ?p @ ?c @ drop 12 buf"
    using assms(1) by (simp add: header_def be_of_be)
  also have "\<dots> = take 4 buf @ drop 4 buf"
    unfolding 4 assms(2) by (simp only: 6 [symmetric])
  finally have "buf = header (buf ! 5) (of_be32 ?p) (of_be16 ?c) @ drop 12 buf" by simp
  then show ?thesis by (rule that)
qed

lemma deserialize_inv:
  assumes "deserialize buf = Inr f"
  shows "\<exists>rest. buf = header (msg_type f) (of_nat (length (payload f))) (crc16 (payload f)) @ payload f @ rest \<and>
    length (payload f) < 2 ^ 32"
proof -
  have "12 \<le> length buf" "take 4 buf = MAGIC" "buf ! 4 = VERSION"
    using assms by (auto simp: deserialize_def split: if_splits)
  then obtain t plen chk data where buf: "buf = header t plen chk @ data" by (rule header_cases)
  from assms have "unat plen \<le> length data" "crc16 (take (unat plen) data) = chk"
    "f = \<lparr>msg_type = t, payload = take (unat plen) data\<rparr>"
    unfolding buf deserialize_layout by (auto split: if_splits)
  then show ?thesis
    unfolding buf using unsigned_less [of plen] by (intro exI [of _ "drop (unat plen) data"]) (simp add: min_absorb2)
qed

lemma crc16_window:
  assumes "length u = length v" "length u \<le> 2" "crc16 (xs @ u @ ys) = crc16 (xs @ v @ ys)"
  shows "u = v"
proof -
  let ?s = "foldl crc_byte 0xFFFF xs"
  have *: "foldl crc_byte ?s u = foldl crc_byte ?s v"
    using assms(3) unfolding crc16_def foldl_append by (rule foldl_crc_inj)
  have "length u = 0 \<or> length u = 1 \<or> length u = 2" using assms(2) by arith
  then consider "length u = 0" | "length u = 1" | "length u = 2" by blast
  then show ?thesis
  proof cases
    case 1
    then show ?thesis using assms(1) by simp
  next
    case 2
    then obtain a b where uv: "u = [a]" "v = [b]"
      using assms(1) by (auto simp: length_Suc_conv)
    have "crc_byte (crc_byte ?s a) 0 = crc_byte (crc_byte ?s b) 0"
      using * unfolding uv foldl.simps by (rule arg_cong)
    then show ?thesis using crc_two_bytes_inj uv by blast
  next
    case 3
    then obtain a1 a2 b1 b2 where uv: "u = [a1, a2]" "v = [b1, b2]"
      using assms(1) by (auto simp: numeral_2_eq_2 length_Suc_conv)
    show ?thesis using * crc_two_bytes_inj unfolding uv foldl.simps by blast
  qed
qed

lemma xor_common_nat: "(m XOR r) XOR (m XOR c) = r XOR (c :: nat)"
  by (simp only: xor.assoc xor.left_commute [of r m] xor_cancel_left_nat)

lemma xor_less_exp: "a < 2 ^ k \<Longrightarrow> b < 2 ^ k \<Longrightarrow> a XOR b < (2 :: nat) ^ k"
  by (metis take_bit_nat_eq_self_iff take_bit_xor)

text \<open>Division is unique: a multiple of the generator of degree below sixteen is zero.\<close>

lemma xor_keeps_top: "2 ^ m \<le> a \<Longrightarrow> b < 2 ^ m \<Longrightarrow> (2 :: nat) ^ m \<le> a XOR b"
proof (rule ccontr)
  assume a: "2 ^ m \<le> a" "b < 2 ^ m" and "\<not> 2 ^ m \<le> a XOR b"
  then have "drop_bit m (a XOR b) = 0" "drop_bit m b = 0" by (simp_all add: drop_bit_eq_div)
  then have "drop_bit m a = 0" by (simp add: drop_bit_xor)
  with a show False by (simp add: drop_bit_eq_div div_eq_0_iff)
qed

lemma clmul_degree: "q \<noteq> 0 \<Longrightarrow> 2 ^ k \<le> b \<Longrightarrow> b < 2 ^ Suc k \<Longrightarrow> 2 ^ k \<le> clmul q b"
proof (induction q b arbitrary: k rule: clmul.induct)
  case (1 q b)
  show ?case
  proof (cases "q div 2 = 0")
    case True
    with 1 have "odd q" by (metis div_mult_mod_eq even_iff_mod_2_eq_zero mult_zero_left add.left_neutral)
    with True show ?thesis using 1 by (simp add: clmul_unfold [of q])
  next
    case False
    have "2 ^ Suc k \<le> clmul (q div 2) (2 * b)"
      using 1(1) [of "Suc k"] 1(2-4) False by simp
    then have "2 ^ Suc k \<le> clmul (q div 2) (2 * b) XOR (if odd q then b else 0)"
      using 1 by (intro xor_keeps_top) auto
    then show ?thesis unfolding clmul_unfold [of q] by (simp add: ac_simps)
  qed
qed

lemma gf2_multiple_small:
  assumes "gf2_multiple n" "n < 2 ^ 16"
  shows "n = 0"
proof -
  obtain q where n: "n = clmul q GENERATOR" using assms(1) by (auto simp: gf2_multiple_def)
  have "q = 0"
    using clmul_degree [of q 16 GENERATOR] assms(2) n by (cases "q = 0") (simp_all add: GENERATOR_def)
  then show ?thesis using n by simp
qed

lemma blit_Some: "blit buf off xs = Some b \<Longrightarrow> length b = length buf \<and> off + length xs \<le> length buf"
  by (auto simp: blit_def split: if_splits)

lemma serialize_needs_room:
  assumes "serialize f = Some b"
  shows "12 \<le> unat (12 + (of_nat (length (payload f)) :: u32))"
proof -
  let ?n = "of_nat (length (payload f)) :: u32"
  obtain b1 b2 b3 b4 b5 where
    "blit (replicate (unat (12 + ?n)) 0) 0 MAGIC = Some b1" "blit b1 4 [VERSION] = Some b2"
    "blit b2 5 [msg_type f] = Some b3" "blit b3 6 (be32 ?n) = Some b4"
    "blit b4 10 (be16 (crc16 (payload f))) = Some b5"
    using assms unfolding serialize_def Let_def bind_eq_Some_conv by blast
  from this [THEN blit_Some] show ?thesis by simp
qed

subsection \<open>Properties\<close>

text \<open>
  C25. The check is the remainder of dividing the message, shifted by sixteen places and with the
  initial value added, by the generator polynomial: it is the only number below \<open>2\<^sup>1\<^sup>6\<close> that
  differs from it by a multiple of the generator.\<close>

theorem crc16_is_remainder:
  "r < 2 ^ 16 \<Longrightarrow>
   (\<exists>q. push_bit 16 (poly_of data) XOR push_bit (8 * length data) 0xFFFF = clmul q GENERATOR XOR r) \<longleftrightarrow>
   r = unat (crc16 data)"
proof -
  assume r: "r < 2 ^ 16"
  let ?m = "push_bit 16 (poly_of data) XOR push_bit (8 * length data) 0xFFFF" and ?c = "unat (crc16 data)"
  have c: "gf2_multiple (?m XOR ?c)"
    using crc_fold_poly [of data] by (simp only: crc16_def xor.assoc)
  have "r = ?c" if "?m = clmul q GENERATOR XOR r" for q
  proof -
    have "?m XOR r = clmul q GENERATOR" using that by (simp only: xor.assoc xor_self_eq xor.right_neutral)
    then have "gf2_multiple (?m XOR r)" unfolding gf2_multiple_def by blast
    from gf2_multiple_xor [OF this c] have "gf2_multiple (r XOR ?c)" by (simp only: xor_common_nat)
    moreover have "r XOR ?c < 2 ^ 16"
      using r unsigned_less [of "crc16 data"] by (intro xor_less_exp) simp_all
    ultimately have "r XOR ?c = 0" by (rule gf2_multiple_small)
    then show ?thesis using xor_cancel_left_nat [of r ?c] by (simp only: xor.right_neutral)
  qed
  moreover have "\<exists>q. ?m = clmul q GENERATOR XOR ?c"
  proof -
    obtain q where "?m XOR ?c = clmul q GENERATOR" using c by (auto simp only: gf2_multiple_def)
    then have "clmul q GENERATOR XOR ?c = ?m XOR (?c XOR ?c)" by (simp only: xor.assoc [symmetric])
    then have "?m = clmul q GENERATOR XOR ?c" by (simp only: xor_self_eq xor.right_neutral)
    then show ?thesis ..
  qed
  ultimately show ?thesis by blast
qed

theorem crc16_is_remainder_witness:
  "\<exists>q. push_bit 16 (poly_of [0x31, 0x32, 0x33, 0x34, 0x35, 0x36, 0x37, 0x38, 0x39]) XOR push_bit 72 0xFFFF =
     clmul q GENERATOR XOR 0x29B1"
proof -
  have "0x29B1 = unat (crc16 [0x31, 0x32, 0x33, 0x34, 0x35, 0x36, 0x37, 0x38, 0x39])" 
    by (simp add: crc16_def crc_byte_def funpow_8 crc_bit_def)
  then show ?thesis
    using crc16_is_remainder [of "0x29B1" "[0x31, 0x32, 0x33, 0x34, 0x35, 0x36, 0x37, 0x38, 0x39]"] by simp
qed

text \<open>
  C26. A frame in transit whose payload is corrupted within any one or two neighbouring bytes is
  rejected with the message for a wrong check, whatever the corruption.\<close>

theorem corruption_of_two_bytes_rejected:
  assumes "length (xs @ u @ ys) < 2 ^ 32 - 12"
    and "serialize \<lparr>msg_type = t, payload = xs @ u @ ys\<rparr> = Some buf"
    and "length v = length u" "length u \<le> 2" "v \<noteq> u"
  shows "deserialize (take (12 + length xs) buf @ v @ drop (12 + length xs + length u) buf) =
    Inl ''CRC mismatch''"
proof -
  let ?n = "of_nat (length (xs @ u @ ys)) :: u32" and ?c = "crc16 (xs @ u @ ys)"
  have buf: "buf = header t ?n ?c @ xs @ u @ ys"
    using assms(2) serialize_layout [of "\<lparr>msg_type = t, payload = xs @ u @ ys\<rparr>"] assms(1) by simp
  have n: "unat ?n = length (xs @ u @ ys)"
    using plen_value [of "\<lparr>msg_type = t, payload = xs @ u @ ys\<rparr>"] assms(1) by simp
  have c: "crc16 (xs @ v @ ys) \<noteq> ?c"
    using crc16_window [of v u] assms(3-5) by auto
  have e: "take (12 + length xs) buf @ v @ drop (12 + length xs + length u) buf = header t ?n ?c @ xs @ v @ ys"
    unfolding buf by simp
  show ?thesis
    unfolding e deserialize_layout n using c assms(3) by simp
qed

theorem corruption_of_two_bytes_rejected_witness:
  "deserialize (take 13 (the (serialize \<lparr>msg_type = MsgType_AUTH, payload = [1, 2, 3, 4]\<rparr>)) @ [9, 7] @
     drop 15 (the (serialize \<lparr>msg_type = MsgType_AUTH, payload = [1, 2, 3, 4]\<rparr>))) = Inl ''CRC mismatch''"
  using corruption_of_two_bytes_rejected [of "[1]" "[2, 3]" "[4]" MsgType_AUTH _ "[9, 7]"]
  by (simp add: serialize_layout)

text \<open>
  C3. A frame whose payload is more than twelve bytes below four gigabytes is encoded without error into
  its header and payload, and decodes to itself whatever bytes follow.\<close>

theorem frame_round_trip:
  assumes "length (payload f) < 2 ^ 32 - 12"
  shows "\<exists>buf. serialize f = Some buf \<and> length buf = 12 + length (payload f) \<and>
    (\<forall>rest. deserialize (buf @ rest) = Inr f)"
proof -
  have n: "unat (of_nat (length (payload f)) :: u32) = length (payload f)"
    using assms by (intro plen_value) simp
  show ?thesis
    unfolding serialize_layout [OF assms]
    by (simp add: deserialize_layout n)
qed

theorem frame_round_trip_witness:
  "\<exists>buf. serialize \<lparr>msg_type = MsgType_TELEMETRY, payload = [1, 2, 3]\<rparr> = Some buf \<and> length buf = 15 \<and>
    deserialize (buf @ [7]) = Inr \<lparr>msg_type = MsgType_TELEMETRY, payload = [1, 2, 3]\<rparr>"
  using frame_round_trip [of "\<lparr>msg_type = MsgType_TELEMETRY, payload = [1, 2, 3]\<rparr>"] by auto

text \<open>
  C4. The decoder accepts canonical encodings only: it gives a frame exactly for the buffers that start with the header
  owed to that frame (magic, version, type, payload length, check value of the payload) and its payload, which has
  fewer than \<open>2\<^sup>3\<^sup>2\<close> bytes. For a payload of fewer than \<open>2\<^sup>3\<^sup>2 - 12\<close> bytes these are exactly the buffers that start with
  what the encoder produces for it.\<close>

theorem deserialize_accepts_only_encodings:
  "(deserialize buf = Inr f \<longleftrightarrow> length (payload f) < 2 ^ 32 \<and>
      (\<exists>rest. buf = header (msg_type f) (of_nat (length (payload f))) (crc16 (payload f)) @ payload f @ rest)) \<and>
   (length (payload f) < 2 ^ 32 - 12 \<longrightarrow>
      (deserialize buf = Inr f \<longleftrightarrow> (\<exists>enc rest. serialize f = Some enc \<and> buf = enc @ rest)))"
proof -
  have "unat (of_nat (length (payload f)) :: u32) = length (payload f)" if "length (payload f) < 2 ^ 32"
    using that by (rule plen_value)
  then have iff: "deserialize buf = Inr f \<longleftrightarrow> length (payload f) < 2 ^ 32 \<and>
      (\<exists>rest. buf = header (msg_type f) (of_nat (length (payload f))) (crc16 (payload f)) @ payload f @ rest)"
    using deserialize_inv [of buf f] by (auto simp: deserialize_layout)
  show ?thesis unfolding iff by (auto simp: serialize_layout)
qed

theorem deserialize_accepts_only_encodings_witness:
  "deserialize (MAGIC @ [1, 3, 0, 0, 0, 0, 0xFF, 0xFF, 9]) = Inr \<lparr>msg_type = MsgType_ACK, payload = []\<rparr> \<and>
   serialize \<lparr>msg_type = MsgType_ACK, payload = []\<rparr> = Some (MAGIC @ [1, 3, 0, 0, 0, 0, 0xFF, 0xFF]) \<and>
   deserialize (MAGIC @ [1, 3, 0, 0, 0, 0, 0xFF, 0xFE, 9]) \<noteq> Inr \<lparr>msg_type = MsgType_ACK, payload = []\<rparr>"
proof -
  let ?f = "\<lparr>msg_type = MsgType_ACK, payload = []\<rparr>"
  have enc: "serialize ?f = Some (MAGIC @ [1, 3, 0, 0, 0, 0, 0xFF, 0xFF])"
    by (simp add: serialize_layout header_def be32_def be16_def VERSION_def MsgType_ACK_def crc16_def)
  have acc: "deserialize buf = Inr ?f \<longleftrightarrow> (\<exists>rest. buf = (MAGIC @ [1, 3, 0, 0, 0, 0, 0xFF, 0xFF]) @ rest)" for buf
    using conjunct2 [OF deserialize_accepts_only_encodings [of buf ?f]] by (simp add: enc)
  show ?thesis unfolding acc enc by (simp add: MAGIC_def)
qed

text \<open>
  A payload within twelve bytes of four gigabytes makes the 32-bit size of the buffer wrap around:
  the encoder then writes past the end of its buffer.\<close>

lemma serialize_overruns_near_four_gigabytes:
  assumes "2 ^ 32 - 12 \<le> length (payload f)" "length (payload f) < 2 ^ 32"
  shows "serialize f = None"
proof (rule ccontr)
  let ?n = "of_nat (length (payload f)) :: u32"
  assume "serialize f \<noteq> None"
  then have "12 \<le> unat (12 + ?n)" using serialize_needs_room by blast
  moreover have "unat ?n = length (payload f)" using assms(2) by (rule plen_value)
  ultimately show False using assms by (simp add: unat_word_ariths le_mod_geq)
qed

lemma serialize_overruns_near_four_gigabytes_example:
  "serialize \<lparr>msg_type = MsgType_TELEMETRY, payload = replicate (2 ^ 32 - 12) 0\<rparr> = None"
  by (rule serialize_overruns_near_four_gigabytes) simp_all

end
