(* ===== verification/Outcome.thy ===== *)
theory Outcome
  imports Edge_Prelude
begin

text \<open>
  Effectful code of the telemetry server and its client. A computation takes the state of the
  objects it works on and returns a value, throws an exception, blocks for good, or runs into
  undefined behaviour; each comes with the state reached so far. Sequencing, \<^verbatim>\<open>try\<close>/\<^verbatim>\<open>catch\<close> and the loop rule of these computations are
  defined here once.
\<close>

text \<open>Error codes of \<^verbatim>\<open>boost::system::system_error\<close>, and the exceptions the code distinguishes.\<close>

datatype errc = eof | connection_reset | other_error string

datatype exn = System_error errc | Std_exception string

datatype ('a, 's) outcome = Ret 'a 's | Throw exn 's | Blocked 's | Undef 's

type_synonym ('a, 's) prog = "'s \<Rightarrow> ('a, 's) outcome"

definition ret :: "'a \<Rightarrow> ('a, 's) prog" where
  "ret a s = Ret a s"

definition throw :: "exn \<Rightarrow> ('a, 's) prog" where
  "throw e s = Throw e s"

definition bnd :: "('a, 's) prog \<Rightarrow> ('a \<Rightarrow> ('b, 's) prog) \<Rightarrow> ('b, 's) prog" where
  "bnd m f s =
     (case m s of Ret a t \<Rightarrow> f a t | Throw e t \<Rightarrow> Throw e t | Blocked t \<Rightarrow> Blocked t | Undef t \<Rightarrow> Undef t)"

definition catch :: "('a, 's) prog \<Rightarrow> (exn \<Rightarrow> ('a, 's) prog) \<Rightarrow> ('a, 's) prog" where
  "catch m h s =
     (case m s of Ret a t \<Rightarrow> Ret a t | Throw e t \<Rightarrow> h e t | Blocked t \<Rightarrow> Blocked t | Undef t \<Rightarrow> Undef t)"

definition modify :: "('s \<Rightarrow> 's) \<Rightarrow> (unit, 's) prog" where
  "modify f s = Ret () (f s)"

text \<open>A computation on a part of the state.\<close>

definition zoom :: "('s \<Rightarrow> 'p) \<Rightarrow> ('p \<Rightarrow> 's \<Rightarrow> 's) \<Rightarrow> ('a, 'p) prog \<Rightarrow> ('a, 's) prog" where
  "zoom get put m s =
     (case m (get s) of
        Ret a p \<Rightarrow> Ret a (put p s) | Throw e p \<Rightarrow> Throw e (put p s) | Blocked p \<Rightarrow> Blocked (put p s)
      | Undef p \<Rightarrow> Undef (put p s))"

text \<open>The state a computation ends in, unless it has undefined behaviour.\<close>

fun final_state :: "('a, 's) outcome \<Rightarrow> 's option" where
  "final_state (Ret a s) = Some s"
| "final_state (Throw e s) = Some s"
| "final_state (Blocked s) = Some s"
| "final_state (Undef s) = None"

text \<open>The state reached: at the end, or where the undefined behaviour begins.\<close>

fun state_of :: "('a, 's) outcome \<Rightarrow> 's" where
  "state_of (Ret a s) = s"
| "state_of (Throw e s) = s"
| "state_of (Blocked s) = s"
| "state_of (Undef s) = s"

fun undefined_behaviour :: "('a, 's) outcome \<Rightarrow> bool" where
  "undefined_behaviour (Undef s) = True"
| "undefined_behaviour _ = False"

fun map_state :: "('s \<Rightarrow> 't) \<Rightarrow> ('a, 's) outcome \<Rightarrow> ('a, 't) outcome" where
  "map_state g (Ret a s) = Ret a (g s)"
| "map_state g (Throw e s) = Throw e (g s)"
| "map_state g (Blocked s) = Blocked (g s)"
| "map_state g (Undef s) = Undef (g s)"

fun returns :: "('a, 's) outcome \<Rightarrow> bool" where
  "returns (Ret a s) = True"
| "returns _ = False"

named_theorems prog_simps \<open>evaluation of sequencing and handlers\<close>

lemmas [prog_simps] = ret_def throw_def bnd_def catch_def modify_def zoom_def

lemma bnd_cong [fundef_cong]:
  assumes "m s = m' s'" "\<And>a t. m' s' = Ret a t \<Longrightarrow> f a t = f' a t"
  shows "bnd m f s = bnd m' f' s'"
  using assms by (simp add: bnd_def split: outcome.split)

text \<open>
  The postcondition of a computation: \<open>R\<close> for a returned value and its state, \<open>E\<close> for the state in which
  it throws, blocks or meets undefined behaviour; the latter is admitted exactly when \<open>u\<close> holds.
\<close>

definition post :: "bool \<Rightarrow> ('s \<Rightarrow> bool) \<Rightarrow> ('a \<Rightarrow> 's \<Rightarrow> bool) \<Rightarrow> ('a, 's) outcome \<Rightarrow> bool" where
  "post u E R r =
     (case r of Ret a s \<Rightarrow> R a s | Throw e s \<Rightarrow> E s | Blocked s \<Rightarrow> E s | Undef s \<Rightarrow> u \<and> E s)"

lemma post_simps [simp]:
  "post u E R (Ret a s) = R a s" "post u E R (Throw e s) = E s" "post u E R (Blocked s) = E s"
  "post u E R (Undef s) = (u \<and> E s)"
  by (simp_all add: post_def)

lemma post_bnd:
  assumes "post u E (\<lambda>a t. post u E R (f a t)) (m s)"
  shows "post u E R (bnd m f s)"
  using assms by (cases "m s") (simp_all add: bnd_def)

lemma post_catch:
  assumes "post u E R (m s)" "\<And>e t. E t \<Longrightarrow> post u E R (h e t)"
  shows "post u E R (catch m h s)"
  using assms by (cases "m s") (simp_all add: catch_def)

lemma post_zoom:
  "post u E R (zoom get put m s) =
     post u (\<lambda>p. E (put p s)) (\<lambda>a p. R a (put p s)) (m (get s))"
  by (cases "m (get s)") (simp_all add: zoom_def)

lemma bnd_Ret [prog_simps]: "m s = Ret a t \<Longrightarrow> bnd m f s = f a t"
  by (simp add: bnd_def)

lemma bnd_eq_Ret: "bnd m f s = Ret b u \<longleftrightarrow> (\<exists>a t. m s = Ret a t \<and> f a t = Ret b u)"
  by (cases "m s") (simp_all add: bnd_def)

lemma ret_bnd: "bnd (ret a) f = f a"
  by (simp add: bnd_def ret_def fun_eq_iff)

lemma post_bnd_eq:
  assumes "post u E Q (m s)" "\<And>a t. m s = Ret a t \<Longrightarrow> Q a t \<Longrightarrow> post u E R (f a t)"
  shows "post u E R (bnd m f s)"
  using assms by (cases "m s") (simp_all add: bnd_def)

lemma post_weaken:
  assumes "post u E R r" "u \<Longrightarrow> u'" "\<And>s. E s \<Longrightarrow> E' s" "\<And>a s. R a s \<Longrightarrow> R' a s"
  shows "post u' E' R' r"
  using assms by (cases r) simp_all

lemma post_mono:
  assumes "post u E R r" "\<And>s. E s \<Longrightarrow> E' s" "\<And>a s. R a s \<Longrightarrow> R' a s"
  shows "post u E' R' r"
  using assms by (intro post_weaken [OF assms(1)])

text \<open>A condition on the state in which a computation blocks.\<close>

definition blocks_in :: "('s \<Rightarrow> bool) \<Rightarrow> ('a, 's) outcome \<Rightarrow> bool" where
  "blocks_in B r \<longleftrightarrow> (case r of Blocked s \<Rightarrow> B s | _ \<Rightarrow> True)"

lemma blocks_in_simps [simp]:
  "blocks_in B (Ret a s)" "blocks_in B (Throw e s)" "blocks_in B (Undef s)" "blocks_in B (Blocked s) = B s"
  by (simp_all add: blocks_in_def)

lemma blocks_in_bnd:
  assumes "blocks_in B (m s)" "\<And>a t. m s = Ret a t \<Longrightarrow> blocks_in B (f a t)"
  shows "blocks_in B (bnd m f s)"
  using assms by (cases "m s") (simp_all add: bnd_def)

lemma blocks_in_catch:
  assumes "blocks_in B (m s)" "\<And>e t. blocks_in B (h e t)"
  shows "blocks_in B (catch m h s)"
  using assms by (cases "m s") (simp_all add: catch_def)

lemma state_of_post: "post u E (\<lambda>_. E) r \<Longrightarrow> E (state_of r) \<and> (undefined_behaviour r \<longrightarrow> u)"
  by (cases r) simp_all

lemma state_of_map: "state_of (map_state g r) = g (state_of r)"
  by (cases r) simp_all

lemma undefined_map: "undefined_behaviour (map_state g r) = undefined_behaviour r"
  by (cases r) simp_all

end
