(* ===== verification/Db_Pool.thy ===== *)
theory Db_Pool
  imports Outcome
begin

text \<open>
  The connection pool (\<^verbatim>\<open>DbPool\<close>) and the statements that go through it (\<^verbatim>\<open>TelemetryRepository\<close>).
  The PostgreSQL client library is a parameter: how a connection is made, whether one is open, and
  what a transaction does to the outside world. Waiting on a semaphore without permits blocks.
\<close>

subsection \<open>The library interface\<close>

text \<open>
  The parameters of the two prepared statements: sensor, time stamp as a \<^verbatim>\<open>double\<close>, value pattern and
  subject; subject, event and address.
\<close>

datatype query =
    Insert_Telemetry u32 nat u64 string
  | Insert_Auth string string string

record ('w, 'c) pqxx =
  connect :: "string \<Rightarrow> 'w \<Rightarrow> (string + 'c) \<times> 'w"
  is_open :: "'c \<Rightarrow> 'w \<Rightarrow> bool"
  work :: "'c \<Rightarrow> query \<Rightarrow> 'w \<Rightarrow> (string + unit) \<times> 'w"

subsection \<open>DbPool\<close>

definition POOL_SIZE :: nat where
  "POOL_SIZE = 8"

record ('w, 'c) db_pool =
  sem :: nat
  pool_conns :: "'c option list"
  next_idx :: nat
  conn_str :: string
  db_world :: 'w

fun connect_all :: "('w, 'c) pqxx \<Rightarrow> string \<Rightarrow> nat \<Rightarrow> 'w \<Rightarrow> (string + 'c option list) \<times> 'w" where
  "connect_all pq cs 0 w = (Inr [], w)"
| "connect_all pq cs (Suc n) w =
     (case connect pq cs w of
        (Inl e, w) \<Rightarrow> (Inl e, w)
      | (Inr c, w) \<Rightarrow>
          (case connect_all pq cs n w of
             (Inl e, w) \<Rightarrow> (Inl e, w)
           | (Inr conns, w) \<Rightarrow> (Inr (Some c # conns), w)))"

definition db_pool_new :: "('w, 'c) pqxx \<Rightarrow> string \<Rightarrow> 'w \<Rightarrow> (string + ('w, 'c) db_pool) \<times> 'w" where
  "db_pool_new pq cs w =
     (case connect_all pq cs POOL_SIZE w of
        (Inl e, w) \<Rightarrow> (Inl e, w)
      | (Inr conns, w) \<Rightarrow>
          (Inr \<lparr>sem = POOL_SIZE, pool_conns = conns, next_idx = 0, conn_str = cs, db_world = w\<rparr>, w))"

definition ensure_open :: "('w, 'c) pqxx \<Rightarrow> nat \<Rightarrow> (unit, ('w, 'c) db_pool) prog" where
  "ensure_open pq i p =
     (case vec_get (pool_conns p) i of
        None \<Rightarrow> Undef p
      | Some ptr \<Rightarrow>
          if (case ptr of None \<Rightarrow> True | Some c \<Rightarrow> \<not> is_open pq c (db_world p))
          then (case connect pq (conn_str p) (db_world p) of
                  (Inl e, w) \<Rightarrow> Throw (Std_exception e) (p\<lparr>db_world := w\<rparr>)
                | (Inr c, w) \<Rightarrow> Ret () (p\<lparr>db_world := w, pool_conns := (pool_conns p)[i := Some c]\<rparr>))
          else Ret () p)"

definition deref :: "nat \<Rightarrow> ('c, ('w, 'c) db_pool) prog" where
  "deref i p = (case vec_get (pool_conns p) i of Some (Some c) \<Rightarrow> Ret c p | _ \<Rightarrow> Undef p)"

definition acquire :: "('w, 'c) pqxx \<Rightarrow> ('c, ('w, 'c) db_pool) prog" where
  "acquire pq p =
     (if sem p = 0 then Blocked p
      else
        let p = p\<lparr>sem := sem p - 1\<rparr>;
            idx = next_idx p;
            p = p\<lparr>next_idx := (next_idx p + 1) mod POOL_SIZE\<rparr>
        in bnd (ensure_open pq idx) (\<lambda>_. deref idx) p)"

definition release :: "(unit, ('w, 'c) db_pool) prog" where
  "release p = Ret () (p\<lparr>sem := sem p + 1\<rparr>)"

subsection \<open>TelemetryRepository\<close>

text \<open>
  The nearest \<^verbatim>\<open>double\<close> of a 64-bit unsigned integer, ties to even: a significand of 53 bits.
\<close>

definition round_shift :: "nat \<Rightarrow> nat \<Rightarrow> nat" where
  "round_shift k n =
     (let q = n div 2 ^ k; r = n mod 2 ^ k
      in if k = 0 then n
         else if r < 2 ^ (k - 1) \<or> r = 2 ^ (k - 1) \<and> even q then q * 2 ^ k
         else (q + 1) * 2 ^ k)"

fun excess_bits :: "nat \<Rightarrow> nat" where
  "excess_bits n = (if n < 2 ^ 53 then 0 else Suc (excess_bits (n div 2)))"

definition double_of_u64 :: "u64 \<Rightarrow> nat" where
  "double_of_u64 w = round_shift (excess_bits (unat w)) (unat w)"

definition transaction :: "('w, 'c) pqxx \<Rightarrow> 'c \<Rightarrow> query \<Rightarrow> (unit, ('w, 'c) db_pool) prog" where
  "transaction pq conn q p =
     (case work pq conn q (db_world p) of
        (Inl e, w) \<Rightarrow> Throw (Std_exception e) (p\<lparr>db_world := w\<rparr>)
      | (Inr _, w) \<Rightarrow> Ret () (p\<lparr>db_world := w\<rparr>))"

definition insert_telemetry ::
  "('w, 'c) pqxx \<Rightarrow> u32 \<Rightarrow> u64 \<Rightarrow> u64 \<Rightarrow> string \<Rightarrow> (unit, ('w, 'c) db_pool) prog" where
  "insert_telemetry pq sensor_id timestamp_us val client_subject =
     bnd (acquire pq) (\<lambda>conn.
     bnd (catch (transaction pq conn (Insert_Telemetry sensor_id (double_of_u64 timestamp_us) val client_subject))
            (\<lambda>e. bnd release (\<lambda>_. throw e))) (\<lambda>_.
     release))"

definition insert_auth_log ::
  "('w, 'c) pqxx \<Rightarrow> string \<Rightarrow> string \<Rightarrow> string \<Rightarrow> (unit, ('w, 'c) db_pool) prog" where
  "insert_auth_log pq client_subject event ip_addr =
     bnd (acquire pq) (\<lambda>conn.
     bnd (catch (transaction pq conn (Insert_Auth client_subject event ip_addr))
            (\<lambda>e. bnd release (\<lambda>_. throw e))) (\<lambda>_.
     release))"

subsection \<open>The pool under several threads\<close>

text \<open>
  A thread takes a permit, then, under the mutex, an index (or \<^verbatim>\<open>ensure_open\<close> throws and the thread
  leaves), and later gives the permit back. Each use of an index is numbered, so that the uses of one
  connection can be told apart.
\<close>

record 't pool_sys =
  permits :: nat
  next_slot :: nat
  entering :: "'t list"
  holding :: "('t \<times> nat \<times> nat) list"
  uses :: nat

definition pool_start :: "'t pool_sys \<Rightarrow> bool" where
  "pool_start s \<longleftrightarrow>
     s = \<lparr>permits = POOL_SIZE, next_slot = 0, entering = [], holding = [], uses = 0\<rparr>"

inductive pool_step :: "'t pool_sys \<Rightarrow> 't pool_sys \<Rightarrow> bool" where
  take_permit: "0 < permits s \<Longrightarrow> t \<notin> set (entering s) \<Longrightarrow> t \<notin> fst ` set (holding s) \<Longrightarrow>
    pool_step s (s\<lparr>permits := permits s - 1, entering := t # entering s\<rparr>)"
| take_index: "entering s = xs @ t # ys \<Longrightarrow>
    pool_step s (s\<lparr>entering := xs @ ys, holding := (t, next_slot s, uses s) # holding s,
      next_slot := (next_slot s + 1) mod POOL_SIZE, uses := uses s + 1\<rparr>)"
| open_throws: "entering s = xs @ t # ys \<Longrightarrow>
    pool_step s (s\<lparr>entering := xs @ ys, next_slot := (next_slot s + 1) mod POOL_SIZE, uses := uses s + 1\<rparr>)"
| give_back: "holding s = xs @ h # ys \<Longrightarrow>
    pool_step s (s\<lparr>holding := xs @ ys, permits := permits s + 1\<rparr>)"

subsection \<open>Statements through the pool\<close>

declare excess_bits.simps [simp del]

definition pool_wf :: "('w, 'c) db_pool \<Rightarrow> bool" where
  "pool_wf p \<longleftrightarrow> length (pool_conns p) = POOL_SIZE \<and> next_idx p < POOL_SIZE"

text \<open>Both statements have this shape.\<close>

definition statement :: "('w, 'c) pqxx \<Rightarrow> query \<Rightarrow> (unit, ('w, 'c) db_pool) prog" where
  "statement pq q =
     bnd (acquire pq) (\<lambda>conn.
     bnd (catch (transaction pq conn q) (\<lambda>e. bnd release (\<lambda>_. throw e))) (\<lambda>_.
     release))"

lemma insert_telemetry_statement:
  "insert_telemetry pq i ts v sub = statement pq (Insert_Telemetry i (double_of_u64 ts) v sub)"
  by (simp add: insert_telemetry_def statement_def)

lemma insert_auth_log_statement: "insert_auth_log pq sub ev ip = statement pq (Insert_Auth sub ev ip)"
  by (simp add: insert_auth_log_def statement_def)

text \<open>Whether the connection that comes next is usable, or is made anew.\<close>

definition next_conn :: "('w, 'c) pqxx \<Rightarrow> ('w, 'c) db_pool \<Rightarrow> (string + 'c) \<times> 'w" where
  "next_conn pq p =
     (case pool_conns p ! next_idx p of
        Some c \<Rightarrow> if is_open pq c (db_world p) then (Inr c, db_world p)
                 else connect pq (conn_str p) (db_world p)
      | None \<Rightarrow> connect pq (conn_str p) (db_world p))"

lemma list_update_same: "xs ! i = v \<Longrightarrow> xs[i := v] = xs"
  by auto

lemma acquire_cases:
  assumes "pool_wf p" "sem p = Suc n"
  shows "case next_conn pq p of
      (Inl e, w) \<Rightarrow> acquire pq p = Throw (Std_exception e)
         (p\<lparr>sem := n, next_idx := (next_idx p + 1) mod POOL_SIZE, db_world := w\<rparr>)
    | (Inr c, w) \<Rightarrow> acquire pq p = Ret c
         (p\<lparr>sem := n, next_idx := (next_idx p + 1) mod POOL_SIZE, db_world := w,
            pool_conns := (pool_conns p)[next_idx p := Some c]\<rparr>)"
  using assms
  by (cases p) (auto simp: list_update_same acquire_def Let_def bnd_def ensure_open_def deref_def next_conn_def pool_wf_def vec_get_def
      split: option.splits sum.splits prod.splits if_splits)

lemma statement_cases:
  assumes "pool_wf p" "sem p = Suc n"
  shows "case next_conn pq p of
      (Inl e, w) \<Rightarrow> statement pq q p = Throw (Std_exception e)
         (p\<lparr>sem := n, next_idx := (next_idx p + 1) mod POOL_SIZE, db_world := w\<rparr>)
    | (Inr c, w) \<Rightarrow>
        (let p' = p\<lparr>next_idx := (next_idx p + 1) mod POOL_SIZE,
               pool_conns := (pool_conns p)[next_idx p := Some c], db_world := snd (work pq c q w)\<rparr>
         in statement pq q p =
              (case fst (work pq c q w) of Inl e \<Rightarrow> Throw (Std_exception e) p' | Inr _ \<Rightarrow> Ret () p'))"
  using acquire_cases [OF assms, of pq] assms(2)
  by (auto simp: statement_def bnd_def catch_def transaction_def release_def throw_def Let_def
      split: option.splits sum.splits prod.splits)

lemma statement_wf:
  assumes "pool_wf p"
  shows "post False pool_wf (\<lambda>_. pool_wf) (statement pq q p)"
proof (cases "sem p")
  case 0
  then show ?thesis using assms by (simp add: statement_def bnd_def acquire_def)
next
  case (Suc n)
  then show ?thesis
    using statement_cases [OF assms Suc, of pq q] assms
    by (auto simp: pool_wf_def POOL_SIZE_def Let_def split: prod.splits sum.splits)
qed

lemma statement_blocks: "blocks_in (\<lambda>p. sem p = 0) (statement pq q p)"
proof -
  have "blocks_in (\<lambda>p. sem p = 0) (acquire pq p)"
    by (auto simp: acquire_def Let_def bnd_def ensure_open_def deref_def split: option.splits sum.splits prod.splits)
  moreover have "blocks_in (\<lambda>p. sem p = 0) (bnd (catch (transaction pq c q) (\<lambda>e. bnd release (\<lambda>_. throw e))) (\<lambda>_. release) t)" for c t
    by (auto simp: bnd_def catch_def transaction_def release_def throw_def split: sum.splits prod.splits)
  ultimately show ?thesis unfolding statement_def by (rule blocks_in_bnd)
qed

text \<open>A client library that also records the committed statements.\<close>

definition logging :: "('w, 'c) pqxx \<Rightarrow> ('w \<times> query list, 'c) pqxx" where
  "logging pq = \<lparr>
     connect = (\<lambda>cs (w, l). case connect pq cs w of (r, w') \<Rightarrow> (r, w', l)),
     is_open = (\<lambda>c (w, l). is_open pq c w),
     work = (\<lambda>c q (w, l). case work pq c q w of
        (Inl e, w') \<Rightarrow> (Inl e, w', l) | (Inr u, w') \<Rightarrow> (Inr u, w', l @ [q]))\<rparr>"

abbreviation committed :: "('w \<times> query list, 'c) db_pool \<Rightarrow> query list" where
  "committed p \<equiv> snd (db_world p)"

lemma next_conn_log: "snd (snd (next_conn (logging pq) p)) = committed p"
  by (auto simp: next_conn_def logging_def split: option.splits prod.splits)

lemma statement_log:
  assumes "pool_wf p"
  shows "post False (\<lambda>p'. pool_wf p' \<and> committed p' = committed p)
    (\<lambda>_ p'. pool_wf p' \<and> committed p' = committed p @ [q]) (statement (logging pq) q p)"
proof (cases "sem p")
  case 0
  then show ?thesis using assms by (simp add: statement_def bnd_def acquire_def)
next
  case (Suc n)
  have "snd (snd (work (logging pq) c q w)) =
      snd w @ (case fst (work (logging pq) c q w) of Inl e \<Rightarrow> [] | Inr u \<Rightarrow> [q])" for c w
    by (cases w) (auto simp: logging_def split: prod.splits sum.splits)
  then show ?thesis
    using statement_cases [OF assms Suc, of "logging pq" q] next_conn_log [of pq p]
      statement_wf [OF assms, of "logging pq" q]
    by (auto simp: Let_def split: prod.splits sum.splits)
qed

text \<open>Statements one after the other, up to the first that does not return: how many were committed, and the outcome.\<close>

fun run_statements ::
  "('w, 'c) pqxx \<Rightarrow> query list \<Rightarrow> ('w, 'c) db_pool \<Rightarrow> nat \<times> (unit, ('w, 'c) db_pool) outcome" where
  "run_statements pq [] p = (0, Ret () p)"
| "run_statements pq (q # qs) p =
     (case statement pq q p of
        Ret u p \<Rightarrow> (case run_statements pq qs p of (n, r) \<Rightarrow> (Suc n, r))
      | r \<Rightarrow> (0, r))"

lemma run_statements_spec:
  assumes "pool_wf p" "run_statements (logging pq) qs p = (n, r)"
  shows "n \<le> length qs" "returns r \<longleftrightarrow> n = length qs" "\<not> undefined_behaviour r" "pool_wf (state_of r)"
    "committed (state_of r) = committed p @ take n qs"
proof -
  have "n \<le> length qs \<and> (returns r \<longleftrightarrow> n = length qs) \<and> \<not> undefined_behaviour r \<and> pool_wf (state_of r) \<and>
      committed (state_of r) = committed p @ take n qs"
    using assms
  proof (induction qs arbitrary: p n)
    case (Cons q qs)
    show ?case
    proof (cases "statement (logging pq) q p")
      case (Ret u p')
      then have p': "pool_wf p'" "committed p' = committed p @ [q]" using statement_log [OF Cons.prems(1), of q pq] by simp_all
      obtain m where "run_statements (logging pq) qs p' = (m, r)" "n = Suc m"
        using Cons.prems(2) Ret by (auto split: prod.splits)
      with Cons.IH [OF p'(1)] p'(2) show ?thesis by auto
    next
      case (Throw e p')
      then show ?thesis using statement_log [OF Cons.prems(1), of q pq] Cons.prems(2) by (simp add: Throw) (auto simp: Throw)
    next
      case (Blocked p')
      then show ?thesis using statement_log [OF Cons.prems(1), of q pq] Cons.prems(2) by (simp add: Blocked) (auto simp: Blocked)
    qed (use statement_log [OF Cons.prems(1), of q pq] in simp)
  qed auto
  then show "n \<le> length qs" "returns r \<longleftrightarrow> n = length qs" "\<not> undefined_behaviour r" "pool_wf (state_of r)"
    "committed (state_of r) = committed p @ take n qs" by blast+
qed

lemma statement_no_conn:
  assumes "pool_wf p" "\<And>cs w. isl (fst (connect pq cs w))" "\<And>c w. \<not> is_open pq c w"
  shows "\<exists>p'. final_state (statement pq q p) = Some p' \<and> pool_wf p' \<and> sem p' = sem p - 1"
proof (cases "sem p")
  case 0
  then show ?thesis using assms(1) by (simp add: statement_def bnd_def acquire_def)
next
  case (Suc n)
  have "isl (fst (next_conn pq p))"
    using assms(2,3) by (simp add: next_conn_def split: option.split)
  then obtain e w where "next_conn pq p = (Inl e, w)"
    by (cases "next_conn pq p") (auto simp: isl_def)
  then show ?thesis
    using statement_cases [OF assms(1) Suc, of pq q] assms(1) Suc by (simp add: pool_wf_def POOL_SIZE_def)
qed

lemma double_of_u64_exact: "unat w < 2 ^ 53 \<Longrightarrow> double_of_u64 w = unat w"
  by (simp add: double_of_u64_def round_shift_def excess_bits.simps)

subsection \<open>Invariants of the threads\<close>

definition pool_inv :: "'t pool_sys \<Rightarrow> bool" where
  "pool_inv s \<longleftrightarrow>
     permits s + length (entering s) + length (holding s) \<le> POOL_SIZE \<and>
     next_slot s = uses s mod POOL_SIZE \<and>
     (\<forall>t i k. (t, i, k) \<in> set (holding s) \<longrightarrow> i = k mod POOL_SIZE \<and> k < uses s) \<and>
     distinct (entering s @ map fst (holding s)) \<and>
     (\<forall>t1 i1 t2 i2 k. (t1, i1, k) \<in> set (holding s) \<longrightarrow> (t2, i2, k) \<in> set (holding s) \<longrightarrow> t1 = t2)"

lemma pool_inv_step: "pool_step s s' \<Longrightarrow> pool_inv s \<Longrightarrow> pool_inv s'"
proof (induction rule: pool_step.induct)
  case (take_permit s t)
  then show ?case by (simp add: pool_inv_def)
next
  case (take_index s xs t ys)
  let ?s = "s\<lparr>entering := xs @ ys, holding := (t, next_slot s, uses s) # holding s,
      next_slot := (next_slot s + 1) mod POOL_SIZE, uses := uses s + 1\<rparr>"
  have old: "i = k mod POOL_SIZE \<and> k < uses s" if "(u, i, k) \<in> set (holding s)" for u i k
    using take_index(2) that unfolding pool_inv_def by blast
  have "k < Suc (uses s)" if "(u, i, k) \<in> set (holding s)" for u i k using old [OF that] by simp
  moreover have "u = v" if "(u, i, k) \<in> set (holding ?s)" "(v, j, k) \<in> set (holding ?s)" for u v i j k
    using that old [of u i k] old [of v j k] take_index(2) by (auto simp: pool_inv_def)
  moreover have "distinct (entering ?s @ map fst (holding ?s))"
    using take_index by (simp add: pool_inv_def)
  ultimately show ?case using take_index old by (simp add: pool_inv_def mod_Suc_eq)
next
  case (open_throws s xs t ys)
  have "k < Suc (uses s)" if "(u, i, k) \<in> set (holding s)" for u i k
    using open_throws(2) that unfolding pool_inv_def by (metis less_SucI)
  with open_throws show ?case by (simp add: pool_inv_def mod_Suc_eq)
next
  case (give_back s xs h ys)
  then have "set (holding (s\<lparr>holding := xs @ ys, permits := permits s + 1\<rparr>)) \<subseteq> set (holding s)" by auto
  moreover have "distinct (entering s @ map fst (xs @ ys))" using give_back by (auto simp: pool_inv_def)
  ultimately show ?case using give_back unfolding pool_inv_def by (simp add: subset_iff del: Un_iff)
qed

lemma distinct_users: "distinct (xs @ ys) \<Longrightarrow> distinct ys"
  by simp

lemma same_slot_apart:
  assumes "k1 mod POOL_SIZE = k2 mod POOL_SIZE" "k1 \<noteq> k2"
  shows "k1 + POOL_SIZE \<le> k2 \<or> k2 + POOL_SIZE \<le> k1"
  using assms
proof (induction k1 k2 rule: linorder_wlog)
  case (le k1 k2)
  then have "POOL_SIZE dvd k2 - k1" by (metis mod_eq_dvd_iff_nat)
  moreover have "0 < k2 - k1" using le by simp
  ultimately show ?case using dvd_imp_le [of POOL_SIZE "k2 - k1"] by linarith
qed (simp add: disj_commute)

lemma pool_inv_reach: "reach pool_start pool_step s \<Longrightarrow> pool_inv s"
proof (erule reach_invariant)
  show "pool_inv s" if "pool_start s" for s :: "'a pool_sys" using that by (simp add: pool_start_def pool_inv_def)
  show "pool_inv t" if "pool_step s t" "pool_inv s" for s t :: "'a pool_sys" using that by (rule pool_inv_step)
qed

text \<open>A thread that uses a connection and gives it back, while another one keeps its own.\<close>

definition one_busy :: "nat \<Rightarrow> nat pool_sys" where
  "one_busy k = \<lparr>permits = 7, next_slot = (k + 1) mod 8, entering = [], holding = [(0, 0, 0)], uses = k + 1\<rparr>"

lemma one_busy_enter: "pool_step (one_busy k) ((one_busy k)\<lparr>permits := 6, entering := [1]\<rparr>)"
  using take_permit [of "one_busy k" 1] by (simp add: one_busy_def)

lemma one_busy_hold:
  "pool_step ((one_busy k)\<lparr>permits := 6, entering := [1]\<rparr>)
     ((one_busy (Suc k))\<lparr>permits := 6, holding := [(1, (k + 1) mod 8, k + 1), (0, 0, 0)]\<rparr>)"
  using take_index [of "(one_busy k)\<lparr>permits := 6, entering := [1]\<rparr>" "[]" 1 "[]"]
  by (simp add: one_busy_def POOL_SIZE_def mod_Suc_eq)

lemma one_busy_back:
  "pool_step ((one_busy (Suc k))\<lparr>permits := 6, holding := [(1, i, j), (0, 0, 0)]\<rparr>) (one_busy (Suc k))"
  using give_back [of "(one_busy (Suc k))\<lparr>permits := 6, holding := [(1, i, j), (0, 0, 0)]\<rparr>" "[]" "(1, i, j)"]
  by (simp add: one_busy_def)

lemma one_busy_reach: "reach pool_start pool_step (one_busy k)"
proof (induction k)
  case 0
  let ?s = "\<lparr>permits = POOL_SIZE, next_slot = 0, entering = [], holding = [], uses = 0\<rparr> :: nat pool_sys"
  have "reach pool_start pool_step ?s" by (rule reach_start) (simp add: pool_start_def)
  moreover have "pool_step ?s (?s\<lparr>permits := 7, entering := [0]\<rparr>)"
    using take_permit [of ?s 0] by (simp add: POOL_SIZE_def)
  moreover have "pool_step (?s\<lparr>permits := 7, entering := [0]\<rparr>) (one_busy 0)"
    using take_index [of "?s\<lparr>permits := 7, entering := [0]\<rparr>" "[]" 0 "[]"]
    by (simp add: one_busy_def POOL_SIZE_def)
  ultimately show ?case by (blast intro: reach_step)
next
  case (Suc k)
  then show ?case by (blast intro: reach_step one_busy_enter one_busy_hold one_busy_back)
qed

lemma shared_slot_reached:
  obtains s :: "nat pool_sys" where "reach pool_start pool_step s" "holding s = [(1, 0, 8), (0, 0, 0)]"
proof -
  have "reach pool_start pool_step ((one_busy 8)\<lparr>permits := 6, holding := [(1, 8 mod 8, 8), (0, 0, 0)]\<rparr>)"
    using reach_step [OF reach_step [OF one_busy_reach one_busy_enter] one_busy_hold, of 7] by simp
  then show thesis by (rule that) simp
qed

subsection \<open>Properties\<close>

text \<open>
  C27. A statement on a pool with a permit left never has undefined behaviour. It gives its permit
  back whether the transaction commits or throws, but loses it when the connection has to be made
  anew and that fails; it returns exactly when a connection is there and the transaction commits.\<close>

theorem statement_permit_balance:
  assumes "pool_wf p" "sem p = Suc n"
    and "r = insert_telemetry pq i ts v sub p \<and> q = Insert_Telemetry i (double_of_u64 ts) v sub \<or>
         r = insert_auth_log pq sub ev ip p \<and> q = Insert_Auth sub ev ip"
  shows "\<exists>p'. final_state r = Some p' \<and> pool_wf p' \<and>
    sem p' = (if isl (fst (next_conn pq p)) then n else Suc n) \<and>
    (returns r \<longleftrightarrow> (\<exists>c w u. next_conn pq p = (Inr c, w) \<and> fst (work pq c q w) = Inr u))"
proof -
  have r: "r = statement pq q p"
    using assms(3) by (auto simp: insert_telemetry_statement insert_auth_log_statement)
  show ?thesis
    unfolding r using statement_cases [OF assms(1,2), of pq q] assms(1,2)
    by (auto simp: Let_def pool_wf_def POOL_SIZE_def split: prod.splits sum.splits)
qed

theorem statement_permit_balance_witness:
  "returns (insert_auth_log \<lparr>connect = (\<lambda>_ w. (Inr (0::nat), w)), is_open = (\<lambda>_ _. True),
     work = (\<lambda>c q w. (Inr (), w @ [q]))\<rparr> ''a'' ''AUTH_OK'' ''::1''
     \<lparr>sem = 8, pool_conns = replicate 8 (Some 0), next_idx = 0, conn_str = [], db_world = []\<rparr>)"
  using statement_permit_balance [where ip = "''::1''" and pq = "\<lparr>connect = (\<lambda>_ w. (Inr (0::nat), w)), is_open = (\<lambda>_ _. True),
     work = (\<lambda>c q w. (Inr (), w @ [q]))\<rparr>" and sub = "''a''" and ev = "''AUTH_OK''" and n = 7 and
     p = "\<lparr>sem = 8, pool_conns = replicate 8 (Some 0), next_idx = 0, conn_str = [], db_world = []\<rparr>"
     and i = 0 and ts = 0 and v = 0, OF _ _ disjI2 [OF conjI [OF refl refl]]]
  by (auto simp: pool_wf_def POOL_SIZE_def next_conn_def)

text \<open>
  C28. While the database cannot be reached every statement loses a permit. After as many statements
  as there were permits the pool blocks for good: later statements wait for ever, also when the
  database is back.\<close>

theorem failed_reconnects_exhaust_pool:
  assumes "pool_wf p" "\<And>cs w. isl (fst (connect pq cs w))" "\<And>c w. \<not> is_open pq c w"
    and "sem p \<le> length samples"
  shows "\<exists>p'. fold_opt (\<lambda>p (i, ts, v, sub). final_state (insert_telemetry pq i ts v sub p)) p samples = Some p' \<and>
    (\<forall>pq' i ts v sub. insert_telemetry pq' i ts v sub p' = Blocked p')"
  using assms(1,4)
proof (induction samples arbitrary: p)
  case Nil
  then show ?case by (simp add: insert_telemetry_def bnd_def acquire_def)
next
  case (Cons x samples)
  obtain i ts v sub where x: "x = (i, ts, v, sub)" by (cases x)
  obtain p1 where p1: "final_state (insert_telemetry pq i ts v sub p) = Some p1" "pool_wf p1" "sem p1 = sem p - 1"
    using statement_no_conn [OF Cons.prems(1) assms(2,3)] unfolding insert_telemetry_statement by blast
  have "sem p1 \<le> length samples" using p1(3) Cons.prems(2) by simp
  from Cons.IH [OF p1(2) this] show ?case by (simp add: x p1(1))
qed

theorem failed_reconnects_exhaust_pool_witness:
  "\<exists>p'. fold_opt (\<lambda>p (i, ts, v, sub). final_state (insert_telemetry
       \<lparr>connect = (\<lambda>_ w. (Inl ''refused'', w)), is_open = (\<lambda>_ _. False), work = (\<lambda>c q w. (Inl [], w))\<rparr> i ts v sub p))
     \<lparr>sem = 1, pool_conns = replicate 8 (Some (0::nat)), next_idx = 0, conn_str = [], db_world = ()\<rparr>
     [(1, 2, 3, ''a'')] = Some p' \<and>
    (\<forall>pq' i ts v sub. insert_telemetry pq' i ts v sub p' = Blocked p')"
  by (rule failed_reconnects_exhaust_pool) (simp_all add: pool_wf_def POOL_SIZE_def)

text \<open>
  C29. Threads that hold a connection are different threads, at most eight at a time, and when two of them hold
  the same connection, one took it after at least seven other uses began since the other took it.\<close>

theorem pool_sharing_bound:
  assumes "reach pool_start pool_step s"
  shows "length (holding s) \<le> POOL_SIZE \<and> distinct (map fst (holding s)) \<and>
    (\<forall>t1 t2 i k1 k2. (t1, i, k1) \<in> set (holding s) \<longrightarrow> (t2, i, k2) \<in> set (holding s) \<longrightarrow> t1 \<noteq> t2 \<longrightarrow>
       k1 + POOL_SIZE \<le> k2 \<or> k2 + POOL_SIZE \<le> k1)"
proof -
  have inv: "pool_inv s" using assms by (rule pool_inv_reach)
  have "k1 + POOL_SIZE \<le> k2 \<or> k2 + POOL_SIZE \<le> k1"
    if "(t1, i, k1) \<in> set (holding s)" "(t2, i, k2) \<in> set (holding s)" "t1 \<noteq> t2" for t1 t2 i k1 k2
  proof -
    have "k1 mod POOL_SIZE = k2 mod POOL_SIZE" using inv that(1,2) unfolding pool_inv_def by metis
    moreover have "k1 \<noteq> k2" using inv that unfolding pool_inv_def by metis
    ultimately show ?thesis by (rule same_slot_apart)
  qed
  moreover have "length (holding s) \<le> POOL_SIZE" using inv unfolding pool_inv_def by linarith
  moreover have "distinct (map fst (holding s))"
    using inv unfolding pool_inv_def by (elim conjE) (rule distinct_users)
  ultimately show ?thesis by blast
qed

theorem pool_sharing_bound_witness:
  "\<exists>s. reach pool_start pool_step s \<and> holding s = [(1 :: nat, 0, 8), (0, 0, 0)] \<and>
     distinct (map fst (holding s)) \<and> (8 + POOL_SIZE \<le> 0 \<or> 0 + POOL_SIZE \<le> 8)"
proof -
  obtain s :: "nat pool_sys" where s: "reach pool_start pool_step s" "holding s = [(1, 0, 8), (0, 0, 0)]"
    by (rule shared_slot_reached)
  have "(1, 0, 8) \<in> set (holding s)" "(0, 0, 0) \<in> set (holding s)" "(1 :: nat) \<noteq> 0" by (simp_all add: s(2))
  with pool_sharing_bound [OF s(1)] have "8 + POOL_SIZE \<le> 0 \<or> 0 + POOL_SIZE \<le> 8" "distinct (map fst (holding s))"
    by blast+
  with s show ?thesis by blast
qed

text \<open>
  C30. Two threads can hold the same connection at the same time: the pool hands out connections in
  turn, whatever is still in use.\<close>

theorem pool_hands_out_connection_twice:
  "\<exists>s. reach pool_start pool_step s \<and> (\<exists>i k1 k2. (0::nat, i, k1) \<in> set (holding s) \<and> (1, i, k2) \<in> set (holding s))"
proof -
  obtain s :: "nat pool_sys" where "reach pool_start pool_step s" "holding s = [(1, 0, 8), (0, 0, 0)]"
    by (rule shared_slot_reached)
  then show ?thesis by (intro exI [of _ s]) auto
qed

end
