(* ===== verification/Session_Server.thy ===== *)
theory Session_Server
  imports Frame_Protocol Db_Pool
begin

text \<open>
  The sessions of the telemetry server: token validation (\<^verbatim>\<open>JwtValidator\<close>), reading and writing frames
  on a connection, and the two session handlers \<^verbatim>\<open>TcpServer::handle_session\<close> and
  \<^verbatim>\<open>TlsServer::handle_tls_session\<close>. A connection is the bytes the peer will send before it closes, the
  bytes written so far, and the number of writes that succeed before the peer resets it. The token
  library, the TLS handshake and the peer's address are parameters.
\<close>

subsection \<open>JwtValidator\<close>

text \<open>The token library: decoding, verification (secret, issuer, leeway) and the subject claim may throw.\<close>

record 'd jwt =
  jwt_decode :: "string \<Rightarrow> string + 'd"
  jwt_verify :: "string \<Rightarrow> string \<Rightarrow> nat \<Rightarrow> 'd \<Rightarrow> string + unit"
  get_subject :: "'d \<Rightarrow> string + string"

record validation_result =
  ok :: bool
  subject :: string
  error_detail :: string

definition ISSUER :: string where
  "ISSUER = ''https://auth.nexburg.internal''"

definition LEEWAY_S :: nat where
  "LEEWAY_S = 30"

text \<open>The environment variable \<^verbatim>\<open>JWT_SECRET\<close> is read at every call.\<close>

definition validate :: "'d jwt \<Rightarrow> string option \<Rightarrow> string \<Rightarrow> validation_result" where
  "validate j env_secret token =
     (case env_secret of
        None \<Rightarrow> \<lparr>ok = False, subject = '''', error_detail = ''JWT_SECRET environment variable not set''\<rparr>
      | Some secret \<Rightarrow>
          (case jwt_decode j token of
             Inl e \<Rightarrow> \<lparr>ok = False, subject = '''', error_detail = e\<rparr>
           | Inr decoded \<Rightarrow>
               (case jwt_verify j secret ISSUER LEEWAY_S decoded of
                  Inl e \<Rightarrow> \<lparr>ok = False, subject = '''', error_detail = e\<rparr>
                | Inr _ \<Rightarrow>
                    (case get_subject j decoded of
                       Inl e \<Rightarrow> \<lparr>ok = False, subject = '''', error_detail = e\<rparr>
                     | Inr sub \<Rightarrow>
                         if sub = '''' then \<lparr>ok = False, subject = '''', error_detail = ''empty subject claim''\<rparr>
                         else \<lparr>ok = True, subject = sub, error_detail = ''''\<rparr>))))"

subsection \<open>Connections\<close>

record socket =
  sk_in :: bytes
  sk_out :: bytes
  sk_writes :: nat

record ('w, 'c) session = socket +
  db :: "('w, 'c) db_pool"
  cerr :: "string list"

text \<open>\<^verbatim>\<open>asio::async_read\<close> fills the whole buffer or throws \<^verbatim>\<open>eof\<close>.\<close>

definition async_read :: "nat \<Rightarrow> (bytes, 'z socket_scheme) prog" where
  "async_read n s =
     (if n \<le> length (sk_in s) then Ret (take n (sk_in s)) (s\<lparr>sk_in := drop n (sk_in s)\<rparr>)
      else Throw (System_error eof) (s\<lparr>sk_in := []\<rparr>))"

definition async_write :: "bytes \<Rightarrow> (unit, 'z socket_scheme) prog" where
  "async_write bs s =
     (case sk_writes s of
        0 \<Rightarrow> Throw (System_error connection_reset) s
      | Suc n \<Rightarrow> Ret () (s\<lparr>sk_out := sk_out s @ bs, sk_writes := n\<rparr>))"

text \<open>A result of plain code that can go wrong, or throw \<^verbatim>\<open>std::invalid_argument\<close>.\<close>

definition lift_opt :: "'a option \<Rightarrow> ('a, 's) prog" where
  "lift_opt x s = (case x of None \<Rightarrow> Undef s | Some a \<Rightarrow> Ret a s)"

definition lift_sum :: "string + 'a \<Rightarrow> ('a, 's) prog" where
  "lift_sum x s = (case x of Inl e \<Rightarrow> Throw (Std_exception e) s | Inr a \<Rightarrow> Ret a s)"

text \<open>
  The buffer for the whole frame has \<^verbatim>\<open>12 + plen\<close> bytes in 32-bit arithmetic; the header is copied to its
  start and the payload is read to offset twelve.
\<close>

definition read_frame :: "(frame, 'z socket_scheme) prog" where
  "read_frame =
     bnd (async_read 12) (\<lambda>hdr_buf.
       let plen = of_be32 (take 4 (drop 6 hdr_buf)) in
     bnd (lift_opt (blit (replicate (unat (12 + plen)) 0) 0 hdr_buf)) (\<lambda>full.
     bnd (if 0 < plen
          then bnd (async_read (unat plen)) (\<lambda>data. lift_opt (blit full 12 data))
          else ret full) (\<lambda>full.
     lift_sum (deserialize full))))"

definition write_frame :: "frame \<Rightarrow> (unit, 'z socket_scheme) prog" where
  "write_frame f = bnd (lift_opt (serialize f)) async_write"

definition on_db :: "('a, ('w, 'c) db_pool) prog \<Rightarrow> ('a, ('w, 'c) session) prog" where
  "on_db = zoom db (\<lambda>p s. s\<lparr>db := p\<rparr>)"

definition log_line :: "string \<Rightarrow> (unit, ('w, 'c) session) prog" where
  "log_line l = modify (\<lambda>s. s\<lparr>cerr := cerr s @ [l]\<rparr>)"

subsection \<open>TcpServer\<close>

definition string_of_bytes :: "bytes \<Rightarrow> string" where
  "string_of_bytes = map (\<lambda>b. char_of (unat b))"

definition store_sample :: "('w, 'c) pqxx \<Rightarrow> string \<Rightarrow> bytes \<Rightarrow> (unit, ('w, 'c) session) prog" where
  "store_sample pq sub data =
     (if 20 \<le> length data
      then
        let sensor_id = of_le_bytes (take 4 data);
            ts_us = of_le_bytes (take 8 (drop 4 data));
            val = of_le_bytes (take 8 (drop 12 data))
        in on_db (insert_telemetry pq sensor_id ts_us val sub)
      else ret ())"

definition what :: "errc \<Rightarrow> string" where
  "what c = (case c of eof \<Rightarrow> ''End of file'' | connection_reset \<Rightarrow> ''Connection reset by peer'' | other_error m \<Rightarrow> m)"

lemma async_read_Ret:
  "async_read n s = Ret a t \<Longrightarrow> n \<le> length (sk_in s) \<and> a = take n (sk_in s) \<and> t = s\<lparr>sk_in := drop n (sk_in s)\<rparr>"
  by (simp add: async_read_def split: if_splits)

lemma lift_Ret:
  "lift_opt x s = Ret a t \<longleftrightarrow> x = Some a \<and> t = s" "lift_sum y s = Ret a t \<longleftrightarrow> y = Inr a \<and> t = s"
  by (auto simp: lift_opt_def lift_sum_def split: option.splits sum.splits)

lemma read_frame_consumes: "read_frame s = Ret f t \<Longrightarrow> length (sk_in t) < length (sk_in s)"
  by (auto simp: read_frame_def bnd_eq_Ret lift_Ret ret_def Let_def dest!: async_read_Ret split: if_splits)

lemma async_write_keeps_in: "async_write bs s = Ret u t \<Longrightarrow> sk_in t = sk_in s"
  by (cases "sk_writes s") (auto simp: async_write_def)

lemma write_frame_keeps_in: "write_frame f s = Ret u t \<Longrightarrow> sk_in t = sk_in s"
  by (auto simp: write_frame_def bnd_eq_Ret lift_Ret dest: async_write_keeps_in)

lemma store_sample_keeps_in: "store_sample pq sub d s = Ret u t \<Longrightarrow> sk_in t = sk_in s"
  by (auto simp: store_sample_def Let_def on_db_def zoom_def ret_def split: if_splits outcome.splits)

function telemetry_loop :: "('w, 'c) pqxx \<Rightarrow> string \<Rightarrow> (unit, ('w, 'c) session) prog" where
  "telemetry_loop pq sub s =
     bnd read_frame (\<lambda>tel s.
       if msg_type tel \<noteq> MsgType_TELEMETRY then ret () s
       else
         bnd (store_sample pq sub (payload tel)) (\<lambda>_.
         bnd (write_frame (new_frame\<lparr>msg_type := MsgType_ACK\<rparr>)) (\<lambda>_.
         telemetry_loop pq sub)) s) s"
  by pat_completeness auto
termination
  by (relation "measure (\<lambda>(pq, sub, s). length (sk_in s))")
    (simp_all, metis read_frame_consumes write_frame_keeps_in store_sample_keeps_in)

text \<open>
  The handler for one connection. \<open>endpoint\<close> is the result of asking for the peer's address, before the
  \<^verbatim>\<open>try\<close> block. End of file and reset are not logged.
\<close>

definition session_error :: "string \<Rightarrow> exn \<Rightarrow> (unit, ('w, 'c) session) prog" where
  "session_error tag e =
     (case e of
        System_error c \<Rightarrow>
          if c \<noteq> eof \<and> c \<noteq> connection_reset then log_line (tag @ '' session error: '' @ what c) else ret ()
      | Std_exception m \<Rightarrow> log_line (tag @ '' exception: '' @ m))"

definition handle_session ::
  "'d jwt \<Rightarrow> string option \<Rightarrow> ('w, 'c) pqxx \<Rightarrow> exn + string \<Rightarrow> (unit, ('w, 'c) session) prog" where
  "handle_session j env_secret pq endpoint =
     (case endpoint of
        Inl e \<Rightarrow> throw e
      | Inr peer_ip \<Rightarrow>
          catch
            (bnd read_frame (\<lambda>auth_frame.
              if msg_type auth_frame \<noteq> MsgType_AUTH
              then write_frame (new_frame\<lparr>msg_type := MsgType_ERROR\<rparr>)
              else
                let token = string_of_bytes (payload auth_frame);
                    result = validate j env_secret token;
                    peer_id = (if subject result = '''' then ''unknown'' else subject result)
                in
                bnd (on_db (insert_auth_log pq peer_id (if ok result then ''AUTH_OK'' else ''AUTH_FAIL_SIG'') peer_ip)) (\<lambda>_.
                if \<not> ok result
                then write_frame (new_frame\<lparr>msg_type := MsgType_ERROR\<rparr>)
                else
                  bnd (write_frame (new_frame\<lparr>msg_type := MsgType_ACK\<rparr>)) (\<lambda>_.
                  telemetry_loop pq (subject result)))))
            (session_error ''[TcpServer]''))"

subsection \<open>TlsServer\<close>

text \<open>
  The same code on a TLS stream, whose plain text is the byte stream of the model; \<open>handshake\<close> is the
  exception the handshake throws, if any.
\<close>

definition read_frame_tls :: "(frame, 'z socket_scheme) prog" where
  "read_frame_tls =
     bnd (async_read 12) (\<lambda>hdr_buf.
       let plen = of_be32 (take 4 (drop 6 hdr_buf)) in
     bnd (lift_opt (blit (replicate (unat (12 + plen)) 0) 0 hdr_buf)) (\<lambda>full.
     bnd (if 0 < plen
          then bnd (async_read (unat plen)) (\<lambda>data. lift_opt (blit full 12 data))
          else ret full) (\<lambda>full.
     lift_sum (deserialize full))))"

definition write_frame_tls :: "frame \<Rightarrow> (unit, 'z socket_scheme) prog" where
  "write_frame_tls f = bnd (lift_opt (serialize f)) async_write"

definition tls_store_sample :: "('w, 'c) pqxx \<Rightarrow> string \<Rightarrow> bytes \<Rightarrow> (unit, ('w, 'c) session) prog" where
  "tls_store_sample pq sub data =
     (if 20 \<le> length data
      then
        let sensor_id = of_le_bytes (take 4 data);
            ts_us = of_le_bytes (take 8 (drop 4 data));
            val = of_le_bytes (take 8 (drop 12 data))
        in on_db (insert_telemetry pq sensor_id ts_us val sub)
      else ret ())"

lemma tls_store_sample_eq: "tls_store_sample = store_sample"
  by (simp add: tls_store_sample_def store_sample_def fun_eq_iff)

lemma frame_tls_eq: "read_frame_tls = read_frame" "write_frame_tls = write_frame"
  by (simp_all add: read_frame_tls_def read_frame_def write_frame_tls_def write_frame_def fun_eq_iff)

function tls_telemetry_loop :: "('w, 'c) pqxx \<Rightarrow> string \<Rightarrow> (unit, ('w, 'c) session) prog" where
  "tls_telemetry_loop pq sub s =
     bnd read_frame_tls (\<lambda>tel s.
       if msg_type tel \<noteq> MsgType_TELEMETRY then ret () s
       else
         bnd (tls_store_sample pq sub (payload tel)) (\<lambda>_.
         bnd (write_frame_tls (new_frame\<lparr>msg_type := MsgType_ACK\<rparr>)) (\<lambda>_.
         tls_telemetry_loop pq sub)) s) s"
  by pat_completeness auto
termination
  by (relation "measure (\<lambda>(pq, sub, s). length (sk_in s))")
    (simp_all add: frame_tls_eq tls_store_sample_eq, metis read_frame_consumes write_frame_keeps_in store_sample_keeps_in)

declare telemetry_loop.simps [simp del] tls_telemetry_loop.simps [simp del]

definition handle_tls_session ::
  "'d jwt \<Rightarrow> string option \<Rightarrow> ('w, 'c) pqxx \<Rightarrow> exn + string \<Rightarrow> exn option \<Rightarrow> (unit, ('w, 'c) session) prog" where
  "handle_tls_session j env_secret pq endpoint handshake =
     (case endpoint of
        Inl e \<Rightarrow> throw e
      | Inr peer_ip \<Rightarrow>
          catch
            (bnd (case handshake of Some e \<Rightarrow> throw e | None \<Rightarrow> ret ()) (\<lambda>_.
             bnd read_frame_tls (\<lambda>auth_frame.
              if msg_type auth_frame \<noteq> MsgType_AUTH
              then write_frame_tls (new_frame\<lparr>msg_type := MsgType_ERROR\<rparr>)
              else
                let token = string_of_bytes (payload auth_frame);
                    result = validate j env_secret token;
                    peer_id = (if subject result = '''' then ''unknown'' else subject result)
                in
                bnd (on_db (insert_auth_log pq peer_id (if ok result then ''AUTH_OK'' else ''AUTH_FAIL_SIG'') peer_ip)) (\<lambda>_.
                if \<not> ok result
                then write_frame_tls (new_frame\<lparr>msg_type := MsgType_ERROR\<rparr>)
                else
                  bnd (write_frame_tls (new_frame\<lparr>msg_type := MsgType_ACK\<rparr>)) (\<lambda>_.
                  tls_telemetry_loop pq (subject result))))))
            (session_error ''[TlsServer]''))"

subsection \<open>Safe streams\<close>

text \<open>Every header at a frame boundary announces a payload for which the buffer size does not wrap around.\<close>

fun safe_stream :: "bytes \<Rightarrow> bool" where
  "safe_stream bs =
     (if length bs < 12 then True
      else
        let plen = of_be32 (take 4 (drop 6 bs))
        in plen < 0xFFFFFFF4 \<and> (length bs < 12 + unat plen \<or> safe_stream (drop (12 + unat plen) bs)))"

declare safe_stream.simps [simp del]

lemma plus12_value: "plen < 0xFFFFFFF4 \<Longrightarrow> unat (12 + plen :: u32) = 12 + unat plen"
  by (rule plus12_no_wrap) (simp add: word_less_nat_alt)

lemma plus12_wraps: "\<not> plen < 0xFFFFFFF4 \<Longrightarrow> unat (12 + plen :: u32) < 12"
proof -
  assume a: "\<not> plen < 0xFFFFFFF4"
  have "unat plen < 2 ^ 32" using unsigned_less [of plen] by simp
  with a show ?thesis by (simp add: word_less_nat_alt not_less unat_word_ariths le_mod_geq)
qed

lemma read_frame_short: "length (sk_in s) < 12 \<Longrightarrow> read_frame s = Throw (System_error eof) (s\<lparr>sk_in := []\<rparr>)"
  by (simp add: read_frame_def bnd_def async_read_def)

lemma read_frame_oversize:
  assumes "12 \<le> length (sk_in s)" "\<not> of_be32 (take 4 (drop 6 (sk_in s))) < 0xFFFFFFF4"
  shows "read_frame s = Undef (s\<lparr>sk_in := drop 12 (sk_in s)\<rparr>)"
proof -
  have h: "take 4 (drop 6 (take 12 (sk_in s))) = take 4 (drop 6 (sk_in s))"
    by (simp add: drop_take)
  show ?thesis
    using assms(1) plus12_wraps [OF assms(2)]
    by (simp add: read_frame_def bnd_def async_read_def Let_def h lift_opt_def blit_def)
qed

lemma read_frame_fits:
  assumes "12 \<le> length (sk_in s)" "of_be32 (take 4 (drop 6 (sk_in s))) = plen" "plen < 0xFFFFFFF4"
  shows "read_frame s =
    (if length (sk_in s) < 12 + unat plen then Throw (System_error eof) (s\<lparr>sk_in := []\<rparr>)
     else lift_sum (deserialize (take (12 + unat plen) (sk_in s))) (s\<lparr>sk_in := drop (12 + unat plen) (sk_in s)\<rparr>))"
proof -
  have h: "take 4 (drop 6 (take 12 (sk_in s))) = take 4 (drop 6 (sk_in s))"
    by (simp add: drop_take)
  have b: "blit (replicate (12 + unat plen) 0) 0 (take 12 (sk_in s)) = Some (take 12 (sk_in s) @ replicate (unat plen) 0)"
    using assms(1) by (simp add: blit_def)
  have z: "0 < plen \<longleftrightarrow> 0 < unat plen" by (simp add: word_less_nat_alt)
  have "read_frame s = (if length (sk_in s) < 12 + unat plen then Throw (System_error eof) (s\<lparr>sk_in := []\<rparr>)
     else lift_sum (deserialize (take 12 (sk_in s) @ take (unat plen) (drop 12 (sk_in s))))
       (s\<lparr>sk_in := drop (unat plen) (drop 12 (sk_in s))\<rparr>))"
    using assms(1)
    by (auto simp: read_frame_def bnd_def async_read_def Let_def h assms(2) lift_opt_def b plus12_value [OF assms(3)] z
        ret_def blit_def)
  then show ?thesis unfolding take_add [of 12] by (simp add: add.commute)
qed


text \<open>Reading back what was written.\<close>

lemma read_frame_encoded:
  assumes "serialize f = Some enc" "length (payload f) < 2 ^ 32 - 12" "sk_in s = enc @ rest"
  shows "read_frame s = Ret f (s\<lparr>sk_in := rest\<rparr>)"
proof -
  let ?n = "of_nat (length (payload f)) :: u32"
  have enc: "enc = header (msg_type f) ?n (crc16 (payload f)) @ payload f"
    using assms(1) serialize_layout [OF assms(2)] by simp
  have n: "unat ?n = length (payload f)" using assms(2) by (intro plen_value) simp
  have p: "of_be32 (take 4 (drop 6 (sk_in s))) = ?n"
    unfolding assms(3) enc by (simp add: header_def)
  have lt: "?n < 0xFFFFFFF4" using assms(2) n by (simp add: word_less_nat_alt)
  have l: "length enc = 12 + length (payload f)" by (simp add: enc)
  have d: "deserialize enc = Inr f"
    using assms(2) unfolding enc deserialize_layout n by simp
  show ?thesis
    using read_frame_fits [OF _ p lt] unfolding n assms(3) by (simp add: l d lift_sum_def)
qed

lemma read_frame_inv:
  assumes "read_frame s = Ret f t"
  shows "\<exists>enc rest. sk_in s = enc @ rest \<and> deserialize enc = Inr f \<and> t = s\<lparr>sk_in := rest\<rparr>"
proof -
  let ?p = "of_be32 (take 4 (drop 6 (sk_in s)))"
  have l: "12 \<le> length (sk_in s)" using assms read_frame_short [of s] by (cases "length (sk_in s) < 12") auto
  have lt: "?p < 0xFFFFFFF4" using assms read_frame_oversize [OF l] by (cases "?p < 0xFFFFFFF4") auto
  show ?thesis
    using assms read_frame_fits [OF l refl lt]
    by (intro exI [of _ "take (12 + unat ?p) (sk_in s)"] exI [of _ "drop (12 + unat ?p) (sk_in s)"])
      (auto simp: lift_Ret split: if_splits)
qed

lemma read_frame_post:
  "post True (\<lambda>t. \<exists>i. t = s\<lparr>sk_in := i\<rparr>) (\<lambda>f t. \<exists>i. t = s\<lparr>sk_in := i\<rparr>) (read_frame s)"
proof (cases "12 \<le> length (sk_in s)")
  case True
  then show ?thesis
    using read_frame_oversize [OF True] read_frame_fits [OF True refl]
    by (cases "of_be32 (take 4 (drop 6 (sk_in s))) < 0xFFFFFFF4") (auto simp: lift_sum_def split: sum.split)
qed (auto simp: read_frame_short)

lemma read_frame_safe:
  assumes "safe_stream (sk_in s)"
  shows "post False (\<lambda>t. \<exists>i. t = s\<lparr>sk_in := i\<rparr>) (\<lambda>f t. \<exists>i. t = s\<lparr>sk_in := i\<rparr> \<and> safe_stream i) (read_frame s)"
proof (cases "length (sk_in s) < 12")
  case False
  then have l: "12 \<le> length (sk_in s)" by simp
  from False assms have "of_be32 (take 4 (drop 6 (sk_in s))) < 0xFFFFFFF4"
    by (simp add: safe_stream.simps [of "sk_in s"] Let_def)
  from read_frame_fits [OF l refl this] False assms show ?thesis
    by (auto simp: lift_sum_def safe_stream.simps [of "sk_in s"] Let_def split: sum.split)
qed (auto simp: read_frame_short)

lemma read_frame_rule:
  "post (\<not> safe_stream (sk_in s)) (\<lambda>t. \<exists>i. t = s\<lparr>sk_in := i\<rparr>)
     (\<lambda>f t. \<exists>i. t = s\<lparr>sk_in := i\<rparr> \<and> (safe_stream (sk_in s) \<longrightarrow> safe_stream i)) (read_frame s)"
proof (cases "safe_stream (sk_in s)")
  case True
  then show ?thesis using read_frame_safe [OF True] by simp
next
  case False
  then show ?thesis using read_frame_post [of s] by simp
qed

lemma serialize_empty: "serialize (new_frame\<lparr>msg_type := k\<rparr>) = Some (header k 0 0xFFFF)"
  by (subst serialize_layout) (simp_all add: new_frame_def crc16_def)

lemma write_empty:
  "write_frame (new_frame\<lparr>msg_type := k\<rparr>) s =
     (case sk_writes s of
        0 \<Rightarrow> Throw (System_error connection_reset) s
      | Suc n \<Rightarrow> Ret () (s\<lparr>sk_out := sk_out s @ header k 0 0xFFFF, sk_writes := n\<rparr>))"
  by (simp add: write_frame_def bnd_def lift_opt_def serialize_empty async_write_def)

end
