(* ===== verification/Session_Correct.thy ===== *)
theory Session_Correct
  imports Session_Server
begin

text \<open>
  What a session of the telemetry server does: the statements it commits for arbitrary input, its
  behaviour on well-formed input, memory safety, and the equivalence of the two servers.
\<close>

subsection \<open>Statements committed for arbitrary input\<close>

text \<open>What a session may commit: statements added to the log, the pool well-formed, the input only read.\<close>

definition adds :: "(query list \<Rightarrow> bool) \<Rightarrow> ('w \<times> query list, 'c) session \<Rightarrow> ('w \<times> query list, 'c) session \<Rightarrow> bool" where
  "adds P s t \<longleftrightarrow> pool_wf (db t) \<and> (\<exists>qs. committed (db t) = committed (db s) @ qs \<and> P qs)"

definition samples_of :: "string \<Rightarrow> query list \<Rightarrow> bool" where
  "samples_of sub qs \<longleftrightarrow> (\<forall>q \<in> set qs. \<exists>i ts v. q = Insert_Telemetry i ts v sub)"

lemma samples_of_append [simp]: "samples_of sub (qs @ rs) \<longleftrightarrow> samples_of sub qs \<and> samples_of sub rs"
  by (auto simp: samples_of_def)

lemma samples_of_Nil [simp]: "samples_of sub []"
  by (simp add: samples_of_def)

lemma adds_trans: "adds (samples_of sub) s t \<Longrightarrow> adds (samples_of sub) t u \<Longrightarrow> adds (samples_of sub) s u"
  by (force simp: adds_def)

lemma adds_same: "db t = db s \<Longrightarrow> pool_wf (db s) \<Longrightarrow> adds (samples_of sub) s t"
  by (simp add: adds_def)

lemma on_db_keeps_in: "t = s\<lparr>db := p\<rparr> \<Longrightarrow> sk_in t = sk_in s"
  by simp

lemma on_db_rule:
  assumes "pool_wf (db s)"
  shows "post False (\<lambda>t. t = s\<lparr>db := db t\<rparr> \<and> pool_wf (db t) \<and> committed (db t) = committed (db s))
    (\<lambda>_ t. t = s\<lparr>db := db t\<rparr> \<and> pool_wf (db t) \<and> committed (db t) = committed (db s) @ [q])
    (on_db (statement (logging pq) q) s)"
  unfolding on_db_def post_zoom using statement_log [OF assms, of q pq] by (rule post_mono) auto

lemma store_sample_rule:
  assumes "pool_wf (db s)"
  shows "post False (adds (samples_of sub) s) (\<lambda>_ t. adds (samples_of sub) s t \<and> sk_in t = sk_in s)
    (store_sample (logging pq) sub d s)"
proof (cases "20 \<le> length d")
  case True
  have "samples_of sub [Insert_Telemetry i ts v sub]" for i ts v by (simp add: samples_of_def)
  moreover from True obtain q where "store_sample (logging pq) sub d = on_db (statement (logging pq) q)"
      and "\<exists>i ts v. q = Insert_Telemetry i ts v sub"
    by (auto simp: store_sample_def Let_def insert_telemetry_statement)
  ultimately show ?thesis
    using on_db_rule [OF assms, of q pq] 
    by (auto simp: adds_def elim!: post_mono) (metis on_db_keeps_in)+
qed (use assms in \<open>simp add: store_sample_def ret_def adds_same\<close>)

text \<open>Writing an acknowledgement and going on: it throws, or leaves the database and the input alone.\<close>

lemma acknowledge_rule:
  assumes "adds P s v"
    and "\<And>w. write_frame (new_frame\<lparr>msg_type := MsgType_ACK\<rparr>) v = Ret () w \<Longrightarrow> db w = db v \<Longrightarrow> sk_in w = sk_in v \<Longrightarrow>
      post u (adds P s) (\<lambda>_. adds P s) (k w)"
  shows "post u (adds P s) (\<lambda>_. adds P s) (bnd (write_frame (new_frame\<lparr>msg_type := MsgType_ACK\<rparr>)) (\<lambda>_. k) v)"
proof (cases "sk_writes v")
  case 0
  then show ?thesis using assms(1) by (simp add: bnd_def write_empty)
next
  case (Suc n)
  let ?w = "v\<lparr>sk_out := sk_out v @ header MsgType_ACK 0 0xFFFF, sk_writes := n\<rparr>"
  have w: "write_frame (new_frame\<lparr>msg_type := MsgType_ACK\<rparr>) v = Ret () ?w"
    using Suc by (simp add: write_empty)
  then show ?thesis using assms(2) [OF w] by (simp add: bnd_def)
qed

lemma telemetry_loop_rule:
  assumes "pool_wf (db s)"
  shows "post (\<not> safe_stream (sk_in s)) (adds (samples_of sub) s) (\<lambda>_. adds (samples_of sub) s)
    (telemetry_loop (logging pq) sub s)"
  using assms
proof (induction "logging pq" sub s rule: telemetry_loop.induct)
  case (1 sub s)
  let ?A = "adds (samples_of sub)" and ?u = "\<not> safe_stream (sk_in s)"
  show ?case
    unfolding telemetry_loop.simps [of _ _ s]
  proof (rule post_bnd_eq)
    show "post ?u (?A s) (\<lambda>f t. \<exists>i. t = s\<lparr>sk_in := i\<rparr> \<and> (safe_stream (sk_in s) \<longrightarrow> safe_stream i)) (read_frame s)"
      using read_frame_rule [of s] 1(2) by (elim post_weaken) (auto intro: adds_same)
    fix tel t
    assume rd: "read_frame s = Ret tel t" and "\<exists>i. t = s\<lparr>sk_in := i\<rparr> \<and> (safe_stream (sk_in s) \<longrightarrow> safe_stream i)"
    then have t: "db t = db s" "safe_stream (sk_in s) \<longrightarrow> safe_stream (sk_in t)" by auto
    have st: "?A s t" using t(1) 1(2) by (rule adds_same)
    show "post ?u (?A s) (\<lambda>_. ?A s)
       (if msg_type tel \<noteq> MsgType_TELEMETRY then ret () t
        else bnd (store_sample (logging pq) sub (payload tel))
              (\<lambda>_. bnd (write_frame (new_frame\<lparr>msg_type := MsgType_ACK\<rparr>)) (\<lambda>_. telemetry_loop (logging pq) sub)) t)"
    proof (cases "msg_type tel = MsgType_TELEMETRY")
      case True
      have "post ?u (?A s) (\<lambda>_ v. ?A s v \<and> sk_in v = sk_in t) (store_sample (logging pq) sub (payload tel) t)"
        using store_sample_rule [of t sub pq "payload tel"] t(1) 1(2)
        by (auto intro: adds_trans [OF st] elim!: post_weaken)
      then show ?thesis using True
      proof (simp, elim post_bnd_eq)
        fix a v
        assume sv: "store_sample (logging pq) sub (payload tel) t = Ret a v" and v: "?A s v \<and> sk_in v = sk_in t"
        show "post ?u (?A s) (\<lambda>_. ?A s)
           (bnd (write_frame (new_frame\<lparr>msg_type := MsgType_ACK\<rparr>)) (\<lambda>_. telemetry_loop (logging pq) sub) v)"
        proof (rule acknowledge_rule)
          show "?A s v" using v by simp
          fix w :: "('a \<times> query list, 'b) session"
          assume w: "write_frame (new_frame\<lparr>msg_type := MsgType_ACK\<rparr>) v = Ret () w" "db w = db v" "sk_in w = sk_in v"
          have "pool_wf (db w)" "?A s w" using v w(2) by (auto simp: adds_def)
          from 1(1) [OF rd _ sv w(1) this(1)] True show "post ?u (?A s) (\<lambda>_. ?A s) (telemetry_loop (logging pq) sub w)"
            using t(2) v w(3) by (auto intro: adds_trans [OF \<open>?A s w\<close>] elim!: post_weaken)
        qed
      qed
    qed (use st in \<open>simp add: ret_def\<close>)
  qed
qed

text \<open>
  What one session commits: nothing, or one entry for its authentication, followed by samples of the
  authenticated subject only if the token was accepted.
\<close>

definition auth_query :: "validation_result \<Rightarrow> string \<Rightarrow> query" where
  "auth_query r ip =
     Insert_Auth (if ok r then subject r else ''unknown'') (if ok r then ''AUTH_OK'' else ''AUTH_FAIL_SIG'') ip"

definition after_auth :: "validation_result \<Rightarrow> string \<Rightarrow> query list \<Rightarrow> bool" where
  "after_auth r ip qs \<longleftrightarrow>
     (case qs of [] \<Rightarrow> True | q # tels \<Rightarrow> q = auth_query r ip \<and> samples_of (subject r) tels \<and> (tels = [] \<or> ok r))"

definition authorised :: "'d jwt \<Rightarrow> string option \<Rightarrow> string \<Rightarrow> bytes \<Rightarrow> query list \<Rightarrow> bool" where
  "authorised j env ip input qs \<longleftrightarrow>
     qs = [] \<or>
     (\<exists>enc rest f. input = enc @ rest \<and> deserialize enc = Inr f \<and> msg_type f = MsgType_AUTH \<and>
        after_auth (validate j env (string_of_bytes (payload f))) ip qs)"

lemma validate_subject: "ok (validate j env tok) \<longleftrightarrow> subject (validate j env tok) \<noteq> []"
  by (auto simp: validate_def split: option.split sum.split)

lemma after_auth_rule:
  fixes s :: "('w \<times> query list, 'c) session"
  assumes "pool_wf (db s)"
  shows "post (\<not> safe_stream (sk_in s)) (adds (after_auth r ip) s) (\<lambda>_. adds (after_auth r ip) s)
    (bnd (on_db (statement (logging pq) (auth_query r ip)))
       (\<lambda>_. if \<not> ok r then write_frame (new_frame\<lparr>msg_type := MsgType_ERROR\<rparr>)
            else bnd (write_frame (new_frame\<lparr>msg_type := MsgType_ACK\<rparr>)) (\<lambda>_. telemetry_loop (logging pq) (subject r))) s)"
    (is "post ?u ?A _ _")
proof (rule post_bnd_eq)
  let ?q = "auth_query r ip"
  let ?Q = "\<lambda>_ (t :: ('w \<times> query list, 'c) session). sk_in t = sk_in s \<and> pool_wf (db t) \<and> committed (db t) = committed (db s) @ [?q]"
  show "post ?u ?A ?Q (on_db (statement (logging pq) ?q) s)"
    using on_db_rule [OF assms, of ?q pq]
    by (auto simp: adds_def after_auth_def elim!: post_weaken) (metis on_db_keeps_in)
  fix a t
  assume t: "?Q a t"
  show "post ?u ?A (\<lambda>_. ?A) ((if \<not> ok r then write_frame (new_frame\<lparr>msg_type := MsgType_ERROR\<rparr>)
       else bnd (write_frame (new_frame\<lparr>msg_type := MsgType_ACK\<rparr>)) (\<lambda>_. telemetry_loop (logging pq) (subject r))) t)"
  proof (cases "ok r \<and> sk_writes t \<noteq> 0")
    case True
    then obtain n where n: "sk_writes t = Suc n" by (cases "sk_writes t") auto
    let ?v = "t\<lparr>sk_out := sk_out t @ header MsgType_ACK 0 0xFFFF, sk_writes := n\<rparr>"
    have "?A v" if "adds (samples_of (subject r)) ?v v" for v
      using that t True by (auto simp: adds_def after_auth_def)
    then show ?thesis
      using telemetry_loop_rule [of ?v "subject r" pq] t True
      by (auto simp: bnd_def write_empty n elim!: post_weaken)
  next
    case False
    have "?A (t\<lparr>sk_out := x, sk_writes := y\<rparr>)" "?A t" for x y using t by (auto simp: adds_def after_auth_def)
    then show ?thesis using False by (cases "sk_writes t") (auto simp: write_empty bnd_def)
  qed
qed

lemma handle_session_rule:
  assumes wf: "pool_wf (db s)"
  shows "post (\<not> safe_stream (sk_in s)) (adds (authorised j env ip (sk_in s)) s) (\<lambda>_. adds (authorised j env ip (sk_in s)) s)
    (handle_session j env (logging pq) (Inr ip) s)"
    (is "post ?u ?A _ _")
  unfolding handle_session_def sum.case
proof (intro post_catch post_bnd_eq [where m = read_frame])
  have none: "?A t" if "db t = db s" for t using that wf by (simp add: adds_def authorised_def)
  show "post ?u ?A (\<lambda>f t. \<exists>i. t = s\<lparr>sk_in := i\<rparr> \<and> (safe_stream (sk_in s) \<longrightarrow> safe_stream i)) (read_frame s)"
    using read_frame_rule [of s] by (elim post_weaken) (auto intro: none)
  fix f t
  assume rd: "read_frame s = Ret f t" and t: "\<exists>i. t = s\<lparr>sk_in := i\<rparr> \<and> (safe_stream (sk_in s) \<longrightarrow> safe_stream i)"
  then have tdb: "db t = db s" and ts: "safe_stream (sk_in s) \<longrightarrow> safe_stream (sk_in t)" by auto
  let ?r = "validate j env (string_of_bytes (payload f))"
  have q: "insert_auth_log (logging pq) (if subject ?r = [] then ''unknown'' else subject ?r)
      (if ok ?r then ''AUTH_OK'' else ''AUTH_FAIL_SIG'') ip = statement (logging pq) (auth_query ?r ip)"
    by (simp add: insert_auth_log_statement validate_subject auth_query_def)
  show "post ?u ?A (\<lambda>_. ?A) ((if msg_type f \<noteq> MsgType_AUTH then write_frame (new_frame\<lparr>msg_type := MsgType_ERROR\<rparr>)
     else let token = string_of_bytes (payload f); result = validate j env token;
              peer_id = if subject result = [] then ''unknown'' else subject result
          in bnd (on_db (insert_auth_log (logging pq) peer_id (if ok result then ''AUTH_OK'' else ''AUTH_FAIL_SIG'') ip))
              (\<lambda>_. if \<not> ok result then write_frame (new_frame\<lparr>msg_type := MsgType_ERROR\<rparr>)
                   else bnd (write_frame (new_frame\<lparr>msg_type := MsgType_ACK\<rparr>))
                          (\<lambda>_. telemetry_loop (logging pq) (subject result)))) t)"
  proof (cases "msg_type f = MsgType_AUTH")
    case True
    have "?A v" if "adds (after_auth ?r ip) t v" for v
      using that True tdb read_frame_inv [OF rd] unfolding adds_def authorised_def by auto
    then show ?thesis
      unfolding Let_def q using True ts wf tdb after_auth_rule [of t ?r ip pq] by (auto elim!: post_weaken)
  next
    case False
    then show ?thesis by (cases "sk_writes t") (auto simp: write_empty intro!: none tdb)
  qed
next
  fix e t
  assume "?A t"
  then show "post ?u ?A (\<lambda>_. ?A) (session_error ''[TcpServer]'' e t)"
    by (cases e) (simp_all add: session_error_def log_line_def modify_def ret_def adds_def)
qed

subsection \<open>Well-formed input\<close>

definition telemetry_of :: "sensor_frame \<Rightarrow> frame" where
  "telemetry_of sf = \<lparr>msg_type = MsgType_TELEMETRY, payload = sf_serialize sf\<rparr>"

definition stored :: "string \<Rightarrow> sensor_frame \<Rightarrow> query" where
  "stored sub sf = Insert_Telemetry (sf_sensor_id sf) (double_of_u64 (sf_timestamp_us sf)) (sf_value sf) sub"

definition encode :: "frame \<Rightarrow> bytes" where
  "encode f = header (msg_type f) (of_nat (length (payload f))) (crc16 (payload f)) @ payload f"

text \<open>A session that has sent \<open>n\<close> acknowledgements, with the input and the pool as they are then.\<close>

definition acked :: "nat \<Rightarrow> bytes \<Rightarrow> ('w, 'c) db_pool \<Rightarrow> ('w, 'c) session \<Rightarrow> ('w, 'c) session" where
  "acked n i p s = s\<lparr>sk_in := i, db := p,
     sk_out := sk_out s @ concat (replicate n (header MsgType_ACK 0 0xFFFF)), sk_writes := sk_writes s - n\<rparr>"

lemma acked_sel [simp]:
  "sk_in (acked n i p s) = i" "db (acked n i p s) = p" "sk_writes (acked n i p s) = sk_writes s - n"
  "sk_out (acked n i p s) = sk_out s @ concat (replicate n (header MsgType_ACK 0 0xFFFF))" "cerr (acked n i p s) = cerr s"
  by (simp_all add: acked_def)

lemma acked_0: "acked 0 i p s = s\<lparr>sk_in := i, db := p\<rparr>"
  by (cases s) (simp add: acked_def)

lemma acked_acked: "acked n i p (acked (Suc 0) i' p' s) = acked (Suc n) i p s"
  by (simp add: acked_def)

lemma on_db_eq: "on_db m s = map_state (\<lambda>p. s\<lparr>db := p\<rparr>) (m (db s))"
  by (cases "m (db s)") (simp_all add: on_db_def zoom_def)

lemma sf_serialize_parse:
  "length (sf_serialize sf) = 20"
  "of_le_bytes (take 4 (sf_serialize sf)) = sf_sensor_id sf"
  "of_le_bytes (take 8 (drop 4 (sf_serialize sf))) = sf_timestamp_us sf"
  "of_le_bytes (drop 12 (sf_serialize sf)) = sf_value sf"
  by (simp_all add: sf_serialize_def of_le_bytes_le_bytes)

lemma store_sample_telemetry:
  "store_sample pq sub (sf_serialize sf) = on_db (statement pq (stored sub sf))"
  by (simp add: store_sample_def sf_serialize_parse insert_telemetry_statement stored_def)

lemma read_frame_encode:
  assumes "length (payload f) < 2 ^ 32 - 12" "sk_in s = encode f @ rest"
  shows "read_frame s = Ret f (s\<lparr>sk_in := rest\<rparr>)"
  using assms by (intro read_frame_encoded [of f]) (simp_all add: serialize_layout encode_def)

lemma telemetry_of_sel [simp]:
  "msg_type (telemetry_of sf) = MsgType_TELEMETRY" "payload (telemetry_of sf) = sf_serialize sf"
  by (simp_all add: telemetry_of_def)

lemma telemetry_loop_eof:
  "sk_in s = [] \<Longrightarrow> telemetry_loop pq sub s = Throw (System_error eof) s"
  by (cases s) (simp add: telemetry_loop.simps bnd_def read_frame_short)

text \<open>One committed sample is acknowledged; a statement that does not return ends the loop with its own outcome.\<close>

lemma telemetry_loop_sample:
  assumes "sk_in s = encode (telemetry_of sf) @ rest" "0 < sk_writes s"
  shows "telemetry_loop pq sub s =
    (case statement pq (stored sub sf) (db s) of
       Ret u p \<Rightarrow> telemetry_loop pq sub (acked (Suc 0) rest p s)
     | r \<Rightarrow> map_state (\<lambda>p. acked 0 rest p s) r)"
proof -
  obtain n where n: "sk_writes s = Suc n" using assms(2) by (cases "sk_writes s") auto
  have rd: "read_frame s = Ret (telemetry_of sf) (s\<lparr>sk_in := rest\<rparr>)"
    using assms(1) by (intro read_frame_encode) (simp_all add: sf_serialize_parse)
  show ?thesis
    by (cases "statement pq (stored sub sf) (db s)")
      (simp_all add: telemetry_loop.simps [of _ _ s] bnd_def rd store_sample_telemetry on_db_eq write_empty n acked_def)
qed

lemma telemetry_loop_samples:
  assumes "sk_in s = concat (map (\<lambda>sf. encode (telemetry_of sf)) sfs)" "length sfs \<le> sk_writes s"
    and "run_statements pq (map (stored sub) sfs) (db s) = (n, r)"
  shows "\<exists>i. telemetry_loop pq sub s =
    (case r of Ret u p \<Rightarrow> Throw (System_error eof) (acked n [] p s) | _ \<Rightarrow> map_state (\<lambda>p. acked n i p s) r)"
  using assms
proof (induction sfs arbitrary: s n)
  case Nil
  then have "acked 0 [] (db s) s = s" by (cases s) (simp add: acked_def)
  with Nil show ?case by (auto simp: telemetry_loop_eof)
next
  case (Cons sf sfs)
  let ?i = "concat (map (\<lambda>sf. encode (telemetry_of sf)) sfs)"
  have step: "telemetry_loop pq sub s =
    (case statement pq (stored sub sf) (db s) of
       Ret u p \<Rightarrow> telemetry_loop pq sub (acked (Suc 0) ?i p s) | r \<Rightarrow> map_state (\<lambda>p. acked 0 ?i p s) r)"
    using Cons.prems(1,2) by (intro telemetry_loop_sample) auto
  show ?case
  proof (cases "statement pq (stored sub sf) (db s)")
    case (Ret u p)
    then obtain m where m: "run_statements pq (map (stored sub) sfs) p = (m, r)" "n = Suc m"
      using Cons.prems(3) by (auto split: prod.splits)
    have "length sfs \<le> sk_writes (acked (Suc 0) ?i p s)" using Cons.prems(2) by simp
    from Cons.IH [OF _ this, of m, unfolded acked_acked] m(1) show ?thesis unfolding m(2) by (simp add: step Ret)
  next
    case (Throw e p)
    with Cons.prems(3) have "n = 0" "r = Throw e p" by auto
    then show ?thesis by (auto simp: step Throw)
  next
    case (Blocked p)
    with Cons.prems(3) have "n = 0" "r = Blocked p" by auto
    then show ?thesis by (auto simp: step Blocked)
  next
    case (Undef p)
    with Cons.prems(3) have "n = 0" "r = Undef p" by auto
    then show ?thesis by (auto simp: step Undef)
  qed
qed

text \<open>
  What a session is to do for an accepted token and samples: run the statements up to the first that fails,
  acknowledge those committed, and report a failure.
\<close>

definition session_result ::
  "nat \<Rightarrow> bytes \<Rightarrow> ('w, 'c) session \<Rightarrow> (unit, ('w, 'c) db_pool) outcome \<Rightarrow> (unit, ('w, 'c) session) outcome" where
  "session_result n i s r =
     (case r of
        Ret u p \<Rightarrow> Ret () (acked n [] p s)
      | Throw e p \<Rightarrow> session_error ''[TcpServer]'' e (acked n i p s)
      | Blocked p \<Rightarrow> Blocked (acked n i p s)
      | Undef p \<Rightarrow> Undef (acked n i p s))"

lemma session_result_state:
  "sk_out (state_of (session_result n i s r)) = sk_out s @ concat (replicate n (header MsgType_ACK 0 0xFFFF)) \<and>
   db (state_of (session_result n i s r)) = state_of r"
  by (cases r) (auto simp: session_result_def session_error_def log_line_def modify_def ret_def split: exn.split)

lemma handle_session_accepts:
  assumes a: "a = \<lparr>msg_type = MsgType_AUTH, payload = tok\<rparr>" "length tok < 2 ^ 32 - 12"
    and v: "validate j env (string_of_bytes tok) = res" "ok res"
    and i: "sk_in s = encode a @ concat (map (\<lambda>sf. encode (telemetry_of sf)) sfs)" "length sfs < sk_writes s"
    and run: "run_statements pq (auth_query res ip # map (stored (subject res)) sfs) (db s) = (n, r)"
  shows "\<exists>i. handle_session j env pq (Inr ip) s = session_result n i s r"
proof -
  let ?i = "concat (map (\<lambda>sf. encode (telemetry_of sf)) sfs)"
  let ?q = "auth_query res ip" and ?h = "session_error ''[TcpServer]''"
  obtain m where m: "sk_writes s = Suc m" using i(2) by (cases "sk_writes s") auto
  have rd: "read_frame s = Ret a (s\<lparr>sk_in := ?i\<rparr>)"
    using i(1) a by (intro read_frame_encode) simp_all
  have sub: "subject res \<noteq> []" using v validate_subject [of j env "string_of_bytes tok"] by simp
  then have q: "insert_auth_log pq (subject res) ''AUTH_OK'' ip = statement pq ?q"
    using v(2) by (simp add: insert_auth_log_statement auth_query_def)
  have step: "handle_session j env pq (Inr ip) s =
    (case statement pq ?q (db s) of
       Ret u p \<Rightarrow> catch (telemetry_loop pq (subject res)) ?h (acked (Suc 0) ?i p s)
     | Throw e p \<Rightarrow> ?h e (acked 0 ?i p s) | Blocked p \<Rightarrow> Blocked (acked 0 ?i p s) | Undef p \<Rightarrow> Undef (acked 0 ?i p s))"
    using v sub
    by (cases "statement pq ?q (db s)")
      (simp_all add: handle_session_def catch_def bnd_def rd a Let_def q on_db_eq write_empty m acked_0 acked_def [of "Suc 0"])
  show ?thesis
  proof (cases "statement pq ?q (db s)")
    case (Ret u p)
    then obtain k where k: "run_statements pq (map (stored (subject res)) sfs) p = (k, r)" "n = Suc k"
      using run by (auto split: prod.splits)
    let ?s = "acked (Suc 0) ?i p s"
    have len: "length sfs \<le> sk_writes ?s" using i(2) by simp
    obtain i' where "telemetry_loop pq (subject res) ?s =
        (case r of Ret u p \<Rightarrow> Throw (System_error eof) (acked n [] p s) | _ \<Rightarrow> map_state (\<lambda>p. acked n i' p s) r)"
      unfolding k(2) using telemetry_loop_samples [OF _ len, unfolded acked_acked, of _ _ k r] k(1) by auto
    then show ?thesis
      by (intro exI [of _ i'], cases r) (simp_all add: step Ret catch_def session_result_def session_error_def ret_def)
  next
    case (Throw e p)
    with run have "n = 0" "r = Throw e p" by auto
    then show ?thesis by (auto simp: step Throw session_result_def)
  next
    case (Blocked p)
    with run have "n = 0" "r = Blocked p" by auto
    then show ?thesis by (auto simp: step Blocked session_result_def)
  next
    case (Undef p)
    with run have "n = 0" "r = Undef p" by auto
    then show ?thesis by (auto simp: step Undef session_result_def)
  qed
qed

subsection \<open>The two servers\<close>

lemma tls_loop_eq: "tls_telemetry_loop = telemetry_loop"
proof (intro ext)
  fix pq :: "('w, 'c) pqxx" and sub s
  show "tls_telemetry_loop pq sub s = telemetry_loop pq sub s"
proof (induction pq sub s rule: telemetry_loop.induct)
  case (1 pq sub s)
  show ?case
    unfolding telemetry_loop.simps [of pq sub s] tls_telemetry_loop.simps [of pq sub s] frame_tls_eq tls_store_sample_eq
    by (intro bnd_cong refl if_cong) (auto intro!: bnd_cong 1)
qed
qed

lemma session_error_log: "\<exists>l. session_error tag e t = Ret () (t\<lparr>cerr := l\<rparr>)"
  by (cases e) (auto simp: session_error_def log_line_def modify_def ret_def intro: exI [of _ "cerr t"])

lemma catch_log_eq:
  "map_state (\<lambda>t. t\<lparr>cerr := []\<rparr>) (catch m (session_error tag) s) =
   map_state (\<lambda>t. t\<lparr>cerr := []\<rparr>) (catch m (session_error tag') s)"
proof (cases "m s")
  case (Throw e t)
  then show ?thesis
    using session_error_log [of tag e t] session_error_log [of tag' e t] by (auto simp: catch_def)
qed (simp_all add: catch_def)

lemma catch_no_throw: "catch m (session_error tag) s \<noteq> Throw e t"
proof (cases "m s")
  case (Throw x y)
  then show ?thesis using session_error_log [of tag x y] by (auto simp: catch_def)
qed (simp_all add: catch_def)

lemma handle_session_no_throw: "handle_session j env pq (Inr ip) s \<noteq> Throw e t"
  unfolding handle_session_def sum.case by (rule catch_no_throw)

lemma tls_session_same:
  "map_state (\<lambda>t. t\<lparr>cerr := []\<rparr>) (handle_tls_session j env pq ep None s) =
     map_state (\<lambda>t. t\<lparr>cerr := []\<rparr>) (handle_session j env pq ep s)"
  unfolding handle_tls_session_def handle_session_def frame_tls_eq tls_loop_eq option.case ret_bnd
  by (cases ep) (simp, simp only: sum.case catch_log_eq [of _ "''[TlsServer]''" _ "''[TcpServer]''"])

lemma tls_session_no_handshake:
  "\<exists>l. handle_tls_session j env pq (Inr ip) (Some e) s = Ret () (s\<lparr>cerr := l\<rparr>)"
  using session_error_log [of "''[TlsServer]''" e s]
  by (simp add: handle_tls_session_def catch_def bnd_def throw_def)

lemma tls_session_effect:
  "sk_out (state_of (handle_tls_session j env pq ep None s)) = sk_out (state_of (handle_session j env pq ep s))"
  "db (state_of (handle_tls_session j env pq ep None s)) = db (state_of (handle_session j env pq ep s))"
  "undefined_behaviour (handle_tls_session j env pq ep None s) = undefined_behaviour (handle_session j env pq ep s)"
  "returns (handle_tls_session j env pq ep None s) = returns (handle_session j env pq ep s)"
proof -
  let ?t = "handle_tls_session j env pq ep None s" and ?p = "handle_session j env pq ep s"
  note eq = tls_session_same [of j env pq ep s]
  have st: "(state_of ?t)\<lparr>cerr := []\<rparr> = (state_of ?p)\<lparr>cerr := []\<rparr>"
    using arg_cong [OF eq, of state_of] by (simp add: state_of_map)
  show "sk_out (state_of ?t) = sk_out (state_of ?p)" using arg_cong [OF st, of sk_out] by simp
  show "db (state_of ?t) = db (state_of ?p)" using arg_cong [OF st, of db] by simp
  show "undefined_behaviour ?t = undefined_behaviour ?p"
    using arg_cong [OF eq, of undefined_behaviour] by (simp add: undefined_map)
  show "returns ?t = returns ?p" using eq by (cases ?t; cases ?p) simp_all
qed

subsection \<open>Waiting for a permit\<close>

lemma read_frame_no_block: "blocks_in B (read_frame s)"
  using read_frame_short [of s] read_frame_oversize [of s] read_frame_fits [of s _, OF _ refl]
  by (cases "12 \<le> length (sk_in s)"; cases "of_be32 (take 4 (drop 6 (sk_in s))) < 0xFFFFFFF4")
    (auto simp: lift_sum_def split: sum.split)

lemma write_empty_no_block: "blocks_in B (write_frame (new_frame\<lparr>msg_type := k\<rparr>) s)"
  by (cases "sk_writes s") (simp_all add: write_empty)

lemma on_db_blocks: "blocks_in (\<lambda>t. sem (db t) = 0) (on_db (statement pq q) s)"
  unfolding on_db_eq using statement_blocks [of pq q "db s"] by (cases "statement pq q (db s)") simp_all

lemma store_sample_blocks: "blocks_in (\<lambda>t. sem (db t) = 0) (store_sample pq sub d s)"
  unfolding store_sample_def insert_telemetry_statement Let_def by (simp add: on_db_blocks ret_def)

lemma telemetry_loop_blocks: "blocks_in (\<lambda>t. sem (db t) = 0) (telemetry_loop pq sub s)"
proof (induction pq sub s rule: telemetry_loop.induct)
  case (1 pq sub s)
  show ?case
    unfolding telemetry_loop.simps [of pq sub s]
    by (intro blocks_in_bnd read_frame_no_block)
      (auto simp: ret_def intro!: blocks_in_bnd store_sample_blocks write_empty_no_block 1)
qed

lemma handle_session_blocks: "blocks_in (\<lambda>t. sem (db t) = 0) (handle_session j env pq (Inr ip) s)"
  unfolding handle_session_def sum.case Let_def insert_auth_log_statement
  by (intro blocks_in_catch blocks_in_bnd read_frame_no_block)
    (auto simp: session_error_def log_line_def modify_def ret_def split: exn.split
      intro!: blocks_in_bnd on_db_blocks write_empty_no_block telemetry_loop_blocks)

subsection \<open>A setting for the examples\<close>

text \<open>A database that accepts everything and a token library whose tokens are subjects.\<close>

definition example_pq :: "(unit, nat) pqxx" where
  "example_pq = \<lparr>connect = (\<lambda>_ w. (Inr 0, w)), is_open = (\<lambda>_ _. True), work = (\<lambda>_ _ w. (Inr (), w))\<rparr>"

definition example_jwt :: "string jwt" where
  "example_jwt = \<lparr>jwt_decode = Inr, jwt_verify = (\<lambda>_ _ _ _. Inr ()), get_subject = Inr\<rparr>"

definition example_session :: "bytes \<Rightarrow> (unit \<times> query list, nat) session" where
  "example_session i = \<lparr>sk_in = i, sk_out = [], sk_writes = 9,
     db = \<lparr>sem = 8, pool_conns = replicate 8 (Some 0), next_idx = 0, conn_str = [], db_world = ((), [])\<rparr>, cerr = []\<rparr>"

definition example_samples :: "sensor_frame list" where
  "example_samples = [\<lparr>sf_sensor_id = 1, sf_timestamp_us = 2, sf_value = 3\<rparr>, \<lparr>sf_sensor_id = 1, sf_timestamp_us = 5, sf_value = 4\<rparr>]"

definition example_input :: bytes where
  "example_input = encode \<lparr>msg_type = MsgType_AUTH, payload = [65]\<rparr> @ concat (map (\<lambda>sf. encode (telemetry_of sf)) example_samples)"

text \<open>A database that refuses sensor numbers from \<open>2\<^sup>3\<^sup>1\<close> on, as the integer column of the schema does.\<close>

definition int_column_pq :: "(unit, nat) pqxx" where
  "int_column_pq = example_pq\<lparr>work := (\<lambda>_ q w.
     (case q of Insert_Telemetry i _ _ _ \<Rightarrow> if 2 ^ 31 \<le> unat i then Inl ''integer out of range'' else Inr () | _ \<Rightarrow> Inr (), w))\<rparr>"

definition large_sensor :: sensor_frame where
  "large_sensor = \<lparr>sf_sensor_id = 0x80000000, sf_timestamp_us = 9, sf_value = 0\<rparr>"

lemma example_facts:
  "pool_wf (db (example_session i))" "sem (db (example_session i)) = 8" "sk_out (example_session i) = []"
  "committed (db (example_session i)) = []" "sk_in (example_session i) = i" "sk_writes (example_session i) = 9"
  "cerr (example_session i) = []"
  "validate example_jwt (Some k) (string_of_bytes [65]) = \<lparr>ok = True, subject = ''A'', error_detail = []\<rparr>"
  by (simp_all add: example_session_def pool_wf_def POOL_SIZE_def example_jwt_def
      validate_def string_of_bytes_def char_of_def bit_0)

text \<open>A statement that the database takes, or refuses with a message, whatever its state.\<close>

definition accepts :: "('w, 'c) pqxx \<Rightarrow> query \<Rightarrow> bool" where
  "accepts pq q \<longleftrightarrow> (\<forall>cs w. \<not> isl (fst (connect pq cs w))) \<and> (\<forall>c w. fst (work pq c q w) = Inr ())"

definition refuses :: "string \<Rightarrow> ('w, 'c) pqxx \<Rightarrow> query \<Rightarrow> bool" where
  "refuses e pq q \<longleftrightarrow> (\<forall>cs w. \<not> isl (fst (connect pq cs w))) \<and> (\<forall>c w. fst (work pq c q w) = Inl e)"

lemma next_conn_connects:
  assumes "\<forall>cs w. \<not> isl (fst (connect pq cs w))"
  shows "\<exists>c w. next_conn (logging pq) p = (Inr c, w)"
proof -
  have "\<not> isl (fst (connect (logging pq) cs w))" for cs w
    using assms [rule_format, of cs "fst w"] by (cases w) (auto simp: logging_def split: prod.splits)
  then have "\<not> isl (fst (next_conn (logging pq) p))"
    by (simp add: next_conn_def split: option.split)
  then show ?thesis by (metis prod.collapse sum.collapse(2))
qed

lemma work_logging: "fst (work (logging pq) c q w) = fst (work pq c q (fst w))"
  by (cases w) (auto simp: logging_def split: prod.splits sum.splits)

lemma statement_accepted:
  assumes "accepts pq q" "pool_wf p" "0 < sem p"
  shows "\<exists>p'. statement (logging pq) q p = Ret () p' \<and> pool_wf p' \<and> sem p' = sem p"
proof -
  obtain n where n: "sem p = Suc n" using assms(3) by (cases "sem p") auto
  obtain c w where c: "next_conn (logging pq) p = (Inr c, w)"
    using next_conn_connects [of pq p] assms(1) unfolding accepts_def by blast
  have "fst (work (logging pq) c q w) = Inr ()" using assms(1) by (simp add: accepts_def work_logging)
  then show ?thesis
    using statement_cases [OF assms(2) n, of "logging pq" q] statement_wf [OF assms(2), of "logging pq" q] n
    by (auto simp: c Let_def)
qed

lemma statement_refused:
  assumes "refuses e pq q" "pool_wf p" "0 < sem p"
  shows "\<exists>p'. statement (logging pq) q p = Throw (Std_exception e) p'"
proof -
  obtain n where n: "sem p = Suc n" using assms(3) by (cases "sem p") auto
  obtain c w where c: "next_conn (logging pq) p = (Inr c, w)"
    using next_conn_connects [of pq p] assms(1) unfolding refuses_def by blast
  have "fst (work (logging pq) c q w) = Inl e" using assms(1) by (simp add: refuses_def work_logging)
  then show ?thesis using statement_cases [OF assms(2) n, of "logging pq" q] by (simp add: c Let_def)
qed

lemma run_statements_accepted:
  "\<forall>q \<in> set qs. accepts pq q \<Longrightarrow> pool_wf p \<Longrightarrow> 0 < sem p \<Longrightarrow>
   \<exists>p'. run_statements (logging pq) (qs @ rs) p =
     (case run_statements (logging pq) rs p' of (n, r) \<Rightarrow> (length qs + n, r)) \<and> pool_wf p' \<and> sem p' = sem p"
proof (induction qs arbitrary: p)
  case Nil
  then show ?case by (intro exI [of _ p]) (simp split: prod.split)
next
  case (Cons q qs)
  obtain p1 where p1: "statement (logging pq) q p = Ret () p1" "pool_wf p1" "sem p1 = sem p"
    using statement_accepted [of pq q p] Cons.prems by auto
  obtain p' where p': "run_statements (logging pq) (qs @ rs) p1 =
      (case run_statements (logging pq) rs p' of (n, r) \<Rightarrow> (length qs + n, r))" "pool_wf p'" "sem p' = sem p1"
    using Cons.IH [of p1] Cons.prems p1 by auto
  show ?case using p1 p' by (intro exI [of _ p']) (simp split: prod.split)
qed

lemma example_accepts: "accepts example_pq q"
  by (simp add: accepts_def example_pq_def)

lemma int_column_accepts:
  "accepts int_column_pq (Insert_Auth a b c)" "unat i < 2 ^ 31 \<Longrightarrow> accepts int_column_pq (Insert_Telemetry i t v a)"
  "refuses ''integer out of range'' int_column_pq (stored a large_sensor)"
  by (simp_all add: accepts_def refuses_def int_column_pq_def example_pq_def stored_def large_sensor_def)

lemma example_run:
  obtains p where "run_statements (logging example_pq) qs (db (example_session i)) = (length qs, Ret () p)"
  using run_statements_accepted [of qs example_pq "db (example_session i)" "[]"] example_accepts
  by (auto simp: example_facts)

subsection \<open>Properties\<close>

text \<open>
  C1. Whatever bytes a peer sends to either server and whatever becomes of the session (it ends, throws, waits for
  ever or runs into undefined behaviour), what it has committed to the database until then is nothing, or the one
  log entry of its authentication followed by samples; there are samples only if the first frame of the
  connection was an AUTH frame whose token was accepted, and all of them carry the subject of that token.
  Undefined behaviour arises only if some header announces \<open>2\<^sup>3\<^sup>2 - 12\<close> bytes or more.\<close>

theorem no_telemetry_without_authentication:
  assumes "pool_wf (db s)"
    and "r = handle_session j env (logging pq) ep s \<or> r = handle_tls_session j env (logging pq) ep hs s"
  shows "\<exists>qs. committed (db (state_of r)) = committed (db s) @ qs \<and>
    (case ep of Inl e \<Rightarrow> qs = [] | Inr ip \<Rightarrow> authorised j env ip (sk_in s) qs) \<and>
    (undefined_behaviour r \<longrightarrow> \<not> safe_stream (sk_in s))"
proof (cases ep)
  case (Inl e)
  then show ?thesis using assms(2) by (auto simp: handle_session_def handle_tls_session_def throw_def)
next
  case (Inr ip)
  have plain: "adds (authorised j env ip (sk_in s)) s (state_of (handle_session j env (logging pq) ep s)) \<and>
      (undefined_behaviour (handle_session j env (logging pq) ep s) \<longrightarrow> \<not> safe_stream (sk_in s))"
    unfolding Inr by (rule state_of_post [OF handle_session_rule [OF assms(1)]])
  show ?thesis
  proof (cases "r = handle_session j env (logging pq) ep s \<or> hs = None")
    case True
    then show ?thesis using plain assms(2) tls_session_effect [of j env "logging pq" ep s] Inr by (auto simp: adds_def)
  next
    case False
    then obtain e l where "r = Ret () (s\<lparr>cerr := l\<rparr>)"
      using assms(2) tls_session_no_handshake [of j env "logging pq" ip _ s] Inr by (cases hs) auto
    then show ?thesis using Inr by (simp add: authorised_def)
  qed
qed

theorem no_telemetry_without_authentication_witness:
  "\<exists>r. r = handle_tls_session example_jwt (Some []) (logging example_pq) (Inr ''::1'') None (example_session example_input) \<and>
    length (committed (db (state_of r))) = 3 \<and>
    authorised example_jwt (Some []) ''::1'' example_input (committed (db (state_of r)))"
proof -
  let ?s = "example_session example_input"
  let ?r = "handle_tls_session example_jwt (Some []) (logging example_pq) (Inr ''::1'') None ?s"
  let ?res = "\<lparr>ok = True, subject = ''A'', error_detail = []\<rparr>"
  let ?qs = "auth_query ?res ''::1'' # map (stored (subject ?res)) example_samples"
  obtain p where p: "run_statements (logging example_pq) ?qs (db ?s) = (length ?qs, Ret () p)" by (rule example_run)
  have "\<exists>i. handle_session example_jwt (Some []) (logging example_pq) (Inr ''::1'') ?s =
      session_result (length ?qs) i ?s (Ret () p)"
    by (rule handle_session_accepts [OF refl _ _ _ _ _ p, of "[65]"])
      (simp_all add: example_facts example_input_def example_samples_def)
  then have "db (state_of ?r) = p" by (auto simp: tls_session_effect session_result_def)
  then have "length (committed (db (state_of ?r))) = 3"
    using run_statements_spec(5) [OF _ p] by (simp add: example_facts example_samples_def)
  moreover have "authorised example_jwt (Some []) ''::1'' example_input (committed (db (state_of ?r)))"
    using no_telemetry_without_authentication [of ?s ?r example_jwt "Some []" example_pq "Inr ''::1''" None]
    by (simp add: example_facts)
  ultimately show ?thesis by blast
qed

text \<open>
  C22. A session on a connection whose every frame header announces fewer than \<open>2\<^sup>3\<^sup>2 - 12\<close> bytes has no
  undefined behaviour. Once the peer's address is known it lets no exception escape: it ends normally, or waits
  for a database permit when none is left. If the address cannot be determined, that exception leaves the session
  at once, before anything was read.\<close>

theorem session_safe_below_four_gigabytes:
  assumes "pool_wf (db s)" "safe_stream (sk_in s)"
  shows "case ep of
      Inl e \<Rightarrow> handle_session j env (logging pq) ep s = Throw e s
    | Inr ip \<Rightarrow> \<exists>t. handle_session j env (logging pq) ep s = Ret () t \<or>
        handle_session j env (logging pq) ep s = Blocked t \<and> sem (db t) = 0"
proof (cases ep)
  case (Inr ip)
  then show ?thesis
    using handle_session_rule [OF assms(1), of j env ip pq] assms(2) handle_session_no_throw [of j env "logging pq" ip s]
      handle_session_blocks [of j env "logging pq" ip s]
    by (cases "handle_session j env (logging pq) ep s") auto
qed (simp add: handle_session_def throw_def)

theorem session_safe_below_four_gigabytes_witness:
  "(\<exists>t. handle_session example_jwt (Some []) (logging example_pq) (Inr ''::1'') (example_session (MAGIC @ [1, 3, 0, 0, 0, 0, 0xFF, 0xFF])) = Ret () t \<and>
     sk_out t = header MsgType_ERROR 0 0xFFFF) \<and>
   (\<exists>s. handle_session example_jwt (Some []) (logging example_pq) (Inl (System_error eof)) s = Throw (System_error eof) s \<and>
     s = example_session [])"
proof
  let ?s = "example_session (MAGIC @ [1, 3, 0, 0, 0, 0, 0xFF, 0xFF])"
  have i: "MAGIC @ [1, 3, 0, 0, 0, 0, 0xFF, 0xFF] = encode \<lparr>msg_type = MsgType_ACK, payload = []\<rparr> @ []"
    by (simp add: encode_def header_def be32_def be16_def VERSION_def MsgType_ACK_def crc16_def)
  have rd: "read_frame ?s = Ret \<lparr>msg_type = MsgType_ACK, payload = []\<rparr> (?s\<lparr>sk_in := []\<rparr>)"
    by (rule read_frame_encode) (simp, unfold example_facts i, rule refl)
  have run: "handle_session example_jwt (Some []) (logging example_pq) (Inr ''::1'') ?s =
      Ret () (?s\<lparr>sk_in := [], sk_out := header MsgType_ERROR 0 0xFFFF, sk_writes := 8\<rparr>)"
    by (simp add: handle_session_def catch_def bnd_def rd MsgType_ACK_def MsgType_AUTH_def write_empty example_facts)
  have "safe_stream (sk_in ?s)" by (simp add: example_facts MAGIC_def safe_stream.simps of_be32_def)
  from session_safe_below_four_gigabytes [OF example_facts(1) this, where ep = "Inr ''::1''" and j = example_jwt and env = "Some []" and pq = example_pq] run
  show "\<exists>t. handle_session example_jwt (Some []) (logging example_pq) (Inr ''::1'') ?s = Ret () t \<and>
      sk_out t = header MsgType_ERROR 0 0xFFFF"
    by auto
  show "\<exists>s. handle_session example_jwt (Some []) (logging example_pq) (Inl (System_error eof)) s = Throw (System_error eof) s \<and>
      s = example_session []"
    using session_safe_below_four_gigabytes [of "example_session []", where ep = "Inl (System_error eof)" and j = example_jwt and env = "Some []" and pq = example_pq]
    by (simp add: example_facts safe_stream.simps)
qed

text \<open>
  C23. Twelve bytes from an unauthenticated peer are enough to corrupt memory: when the header announces a
  payload of \<open>2\<^sup>3\<^sup>2 - 12\<close> bytes or more the 32-bit buffer size wraps around and the header is copied past
  the end of the buffer, in both servers.\<close>

theorem oversize_header_overruns_before_authentication:
  assumes "12 \<le> length (sk_in s)" "0xFFFFFFF4 \<le> of_be32 (take 4 (drop 6 (sk_in s)))"
  shows "handle_session j env pq (Inr ip) s = Undef (s\<lparr>sk_in := drop 12 (sk_in s)\<rparr>) \<and>
    handle_tls_session j env pq (Inr ip) None s = Undef (s\<lparr>sk_in := drop 12 (sk_in s)\<rparr>)"
  using read_frame_oversize [OF assms(1)] assms(2)
  by (simp add: handle_session_def handle_tls_session_def catch_def bnd_def frame_tls_eq ret_def not_less)

theorem oversize_header_overruns_before_authentication_witness:
  "handle_session example_jwt None (logging example_pq) (Inr [])
     (example_session (MAGIC @ [1, 1, 0xFF, 0xFF, 0xFF, 0xFF, 0, 0])) =
     Undef ((example_session (MAGIC @ [1, 1, 0xFF, 0xFF, 0xFF, 0xFF, 0, 0]))\<lparr>sk_in := []\<rparr>)"
  using conjunct1 [OF oversize_header_overruns_before_authentication
      [of "example_session (MAGIC @ [1, 1, 0xFF, 0xFF, 0xFF, 0xFF, 0, 0])" example_jwt None "logging example_pq" "[]"]]
  by (simp add: example_facts MAGIC_def of_be32_def)

text \<open>
  C2. A session whose peer sends an AUTH frame with an accepted token of fewer than \<open>2\<^sup>3\<^sup>2 - 12\<close> bytes and then
  samples, and takes the answers, runs the statements that are due, the log entry and then every sample with its
  own values under the token's subject, one after the other up to the first that the database does not complete,
  whatever the database does. It sends one ACK for every statement committed and nothing else. If all are committed it
  has stored and acknowledged everything; if one throws, the exception is logged and the session ends; if one waits
  for a permit for ever, so does the session.\<close>

theorem session_stores_and_acknowledges:
  assumes "pool_wf (db s)" "length tok < 2 ^ 32 - 12" "validate j env (string_of_bytes tok) = res" "ok res"
    and "sk_in s = encode \<lparr>msg_type = MsgType_AUTH, payload = tok\<rparr> @ concat (map (\<lambda>sf. encode (telemetry_of sf)) sfs)"
    and "length sfs < sk_writes s" "qs = auth_query res ip # map (stored (subject res)) sfs"
  shows "\<exists>n r i. run_statements (logging pq) qs (db s) = (n, r) \<and>
    committed (state_of r) = committed (db s) @ take n qs \<and> (returns r \<longleftrightarrow> n = length qs) \<and>
    (case r of
       Ret u p \<Rightarrow> handle_session j env (logging pq) (Inr ip) s = Ret () (acked n [] p s)
     | Throw e p \<Rightarrow> handle_session j env (logging pq) (Inr ip) s = session_error ''[TcpServer]'' e (acked n i p s)
     | Blocked p \<Rightarrow> handle_session j env (logging pq) (Inr ip) s = Blocked (acked n i p s)
     | Undef p \<Rightarrow> False)"
proof -
  obtain n r where run: "run_statements (logging pq) qs (db s) = (n, r)" by (cases "run_statements (logging pq) qs (db s)")
  note spec = run_statements_spec [OF assms(1) run]
  obtain i where "handle_session j env (logging pq) (Inr ip) s = session_result n i s r"
    using handle_session_accepts [OF refl assms(2-6), of "logging pq" ip n r] run assms(7) by blast
  then show ?thesis
    using run spec by (intro exI [of _ n] exI [of _ r] exI [of _ i]) (cases r; simp add: session_result_def)
qed

theorem session_stores_and_acknowledges_witness:
  "\<exists>i p. handle_session example_jwt (Some []) (logging int_column_pq) (Inr ''::1'')
      (example_session (example_input @ encode (telemetry_of large_sensor))) =
      Ret () ((acked 3 i p (example_session (example_input @ encode (telemetry_of large_sensor))))
        \<lparr>cerr := [''[TcpServer] exception: integer out of range'']\<rparr>) \<and>
    committed p = Insert_Auth ''A'' ''AUTH_OK'' ''::1'' # map (stored ''A'') example_samples"
proof -
  let ?s = "example_session (example_input @ encode (telemetry_of large_sensor))"
  let ?res = "\<lparr>ok = True, subject = ''A'', error_detail = []\<rparr>"
  let ?q = "auth_query ?res ''::1''" and ?pq = "logging int_column_pq"
  let ?qs = "?q # map (stored ''A'') example_samples" and ?bad = "stored ''A'' large_sensor"
  have acc: "\<forall>q \<in> set ?qs. accepts int_column_pq q"
    by (simp add: auth_query_def example_samples_def stored_def int_column_accepts)
  obtain p where p: "run_statements ?pq (?qs @ [?bad]) (db ?s) =
      (case run_statements ?pq [?bad] p of (n, r) \<Rightarrow> (length ?qs + n, r))" "pool_wf p" "sem p = 8"
    using run_statements_accepted [OF acc, of "db ?s" "[?bad]"] by (auto simp: example_facts)
  obtain p' where "statement ?pq ?bad p = Throw (Std_exception ''integer out of range'') p'"
    using statement_refused [OF int_column_accepts(3) p(2)] p(3) by auto
  then have run: "run_statements ?pq (?qs @ [?bad]) (db ?s) = (3, Throw (Std_exception ''integer out of range'') p')"
    using p(1) by (simp add: example_samples_def)
  have "\<exists>n r i. run_statements ?pq (?qs @ [?bad]) (db ?s) = (n, r) \<and>
    committed (state_of r) = committed (db ?s) @ take n (?qs @ [?bad]) \<and> (returns r \<longleftrightarrow> n = length (?qs @ [?bad])) \<and>
    (case r of
       Ret u p \<Rightarrow> handle_session example_jwt (Some []) ?pq (Inr ''::1'') ?s = Ret () (acked n [] p ?s)
     | Throw e p \<Rightarrow> handle_session example_jwt (Some []) ?pq (Inr ''::1'') ?s = session_error ''[TcpServer]'' e (acked n i p ?s)
     | Blocked p \<Rightarrow> handle_session example_jwt (Some []) ?pq (Inr ''::1'') ?s = Blocked (acked n i p ?s)
     | Undef p \<Rightarrow> False)"
    by (rule session_stores_and_acknowledges [where tok = "[65]" and res = ?res and sfs = "example_samples @ [large_sensor]"])
      (simp_all add: example_facts example_input_def example_samples_def)
  then show ?thesis
    unfolding run by (auto simp: session_error_def log_line_def modify_def example_facts auth_query_def example_samples_def)
qed

text \<open>
  C24. After a successful handshake the TLS session does to the connection and the database exactly what
  the plain session does (only the wording of the error log differs); a failed handshake does nothing
  but log.\<close>

theorem tls_session_equivalent:
  "map_state (\<lambda>t. t\<lparr>cerr := []\<rparr>) (handle_tls_session j env pq ep None s) =
     map_state (\<lambda>t. t\<lparr>cerr := []\<rparr>) (handle_session j env pq ep s) \<and>
   (\<exists>l. handle_tls_session j env pq (Inr ip) (Some e) s = Ret () (s\<lparr>cerr := l\<rparr>))"
  using tls_session_same tls_session_no_handshake by blast

end
