(* ===== verification/Telemetry_Client.thy ===== *)
theory Telemetry_Client
  imports Session_Correct
begin

text \<open>
  The telemetry client: it authenticates, sends sixty samples and waits for an answer after each. The
  clock readings and the sample values (a sine with random noise) are inputs. What it sends
  is determined by the answers it gets, and has the form of the input for which \<open>Session_Correct\<close> shows what a session stores.
\<close>

datatype cout_line = Authenticated | Frame_sent nat u64 | Client_done

record client = socket +
  cout :: "cout_line list"

definition read_frame_plain :: "(frame, 'z socket_scheme) prog" where
  "read_frame_plain =
     bnd (async_read 12) (\<lambda>hdr_buf.
       let plen = of_be32 (take 4 (drop 6 hdr_buf)) in
     bnd (lift_opt (blit (replicate (unat (12 + plen)) 0) 0 hdr_buf)) (\<lambda>full.
     bnd (if 0 < plen
          then bnd (async_read (unat plen)) (\<lambda>data. lift_opt (blit full 12 data))
          else ret full) (\<lambda>full.
     lift_sum (deserialize full))))"

definition write_frame_plain :: "frame \<Rightarrow> (unit, 'z socket_scheme) prog" where
  "write_frame_plain f = bnd (lift_opt (serialize f)) async_write"

definition print :: "cout_line \<Rightarrow> (unit, client) prog" where
  "print l = modify (\<lambda>c. c\<lparr>cout := cout c @ [l]\<rparr>)"

text \<open>Iteration \<open>i\<close> reads the clock and computes its value: the next pair of the list.\<close>

fun client_loop :: "nat \<Rightarrow> (u64 \<times> u64) list \<Rightarrow> (unit, client) prog" where
  "client_loop i [] = ret ()"
| "client_loop i ((now_us, val) # rest) =
     (let sf = \<lparr>sf_sensor_id = 1, sf_timestamp_us = now_us, sf_value = val\<rparr>;
          sf_bytes = sf_serialize sf;
          tel = new_frame\<lparr>msg_type := MsgType_TELEMETRY, payload := sf_bytes\<rparr>
      in
      bnd (write_frame_plain tel) (\<lambda>_.
      bnd read_frame_plain (\<lambda>ack2.
      bnd (print (Frame_sent (i + 1) val)) (\<lambda>_.
      client_loop (i + 1) rest))))"

text \<open>\<open>conn_error\<close> is the exception of resolving and connecting, if any.\<close>

definition run_client :: "exn option \<Rightarrow> bytes \<Rightarrow> (nat \<Rightarrow> u64 \<times> u64) \<Rightarrow> (unit, client) prog" where
  "run_client conn_error jwt_token sample =
     bnd (case conn_error of Some e \<Rightarrow> throw e | None \<Rightarrow> ret ()) (\<lambda>_.
     let auth = new_frame\<lparr>msg_type := MsgType_AUTH, payload := jwt_token\<rparr> in
     bnd (write_frame_plain auth) (\<lambda>_.
     bnd read_frame_plain (\<lambda>ack.
     if msg_type ack \<noteq> MsgType_ACK then throw (Std_exception ''AUTH rejected by server'')
     else
       bnd (print Authenticated) (\<lambda>_.
       bnd (client_loop 0 (map sample [0..<60])) (\<lambda>_.
       print Client_done)))))"

subsection \<open>Lemmas\<close>

definition sensor_of :: "u64 \<times> u64 \<Rightarrow> sensor_frame" where
  "sensor_of x = \<lparr>sf_sensor_id = 1, sf_timestamp_us = fst x, sf_value = snd x\<rparr>"

lemma plain_eq: "read_frame_plain = read_frame" "write_frame_plain = write_frame"
  by (simp_all add: read_frame_plain_def read_frame_def write_frame_plain_def write_frame_def fun_eq_iff)

lemma write_frame_encode:
  "length (payload f) < 2 ^ 32 - 12 \<Longrightarrow> sk_writes s = Suc n \<Longrightarrow>
   write_frame f s = Ret () (s\<lparr>sk_out := sk_out s @ encode f, sk_writes := n\<rparr>)"
  by (simp add: write_frame_def bnd_def lift_opt_def serialize_layout async_write_def encode_def)

lemma client_frames:
  "new_frame\<lparr>msg_type := MsgType_TELEMETRY, payload := sf_serialize \<lparr>sf_sensor_id = 1, sf_timestamp_us = a, sf_value = b\<rparr>\<rparr> =
     telemetry_of (sensor_of (a, b))"
  "new_frame\<lparr>msg_type := MsgType_AUTH, payload := tok\<rparr> = \<lparr>msg_type = MsgType_AUTH, payload = tok\<rparr>"
  by (simp_all add: new_frame_def telemetry_of_def sensor_of_def)

lemma take_upt_min: "take m [0..<n] = [0..<min n m]"
  by (cases "m \<le> n") simp_all

text \<open>The bytes of the samples, and what the loop sends for a given list of answers.\<close>

definition sample_bytes :: "(u64 \<times> u64) list \<Rightarrow> bytes" where
  "sample_bytes xs = concat (map (\<lambda>x. encode (telemetry_of (sensor_of x))) xs)"

lemma client_loop_answers:
  assumes "\<forall>f \<in> set fs. length (payload f) < 2 ^ 32 - 12" "sk_in c = concat (map encode fs)" "length xs \<le> sk_writes c"
  shows "\<exists>c'. sk_out c' = sk_out c @ sample_bytes (take (Suc (length fs)) xs) \<and>
    client_loop i xs c = (if length xs \<le> length fs then Ret () c' else Throw (System_error eof) c')"
  using assms
proof (induction xs arbitrary: i c fs)
  case Nil
  then show ?case by (simp add: ret_def sample_bytes_def)
next
  case (Cons x xs)
  obtain a b where x: "x = (a, b)" by (cases x)
  obtain n where n: "sk_writes c = Suc n" using Cons.prems(3) by (cases "sk_writes c") auto
  let ?f = "telemetry_of (sensor_of x)"
  let ?c1 = "c\<lparr>sk_out := sk_out c @ encode ?f, sk_writes := n\<rparr>"
  have w: "write_frame ?f c = Ret () ?c1"
    using n by (intro write_frame_encode) (simp_all add: sf_serialize_parse)
  show ?case
  proof (cases fs)
    case Nil
    then have "read_frame ?c1 = Throw (System_error eof) (?c1\<lparr>sk_in := []\<rparr>)"
      using Cons.prems(2) by (intro read_frame_short) simp
    with w Nil show ?thesis by (simp add: x Let_def client_frames plain_eq bnd_def sample_bytes_def)
  next
    case (Cons f gs)
    let ?c2 = "?c1\<lparr>sk_in := concat (map encode gs), cout := cout c @ [Frame_sent (i + 1) b]\<rparr>"
    have "read_frame ?c1 = Ret f (?c1\<lparr>sk_in := concat (map encode gs)\<rparr>)"
      using Cons.prems(1,2) Cons by (intro read_frame_encode) simp_all
    with w have step: "client_loop i (x # xs) c = client_loop (i + 1) xs ?c2"
      by (simp add: x Let_def client_frames plain_eq bnd_def print_def modify_def)
    have "\<forall>f \<in> set gs. length (payload f) < 2 ^ 32 - 12" "length xs \<le> sk_writes ?c2"
      using Cons.prems(1,3) Cons n by simp_all
    from Cons.IH [OF this(1) _ this(2), of "i + 1"] show ?thesis
      unfolding step Cons by (auto simp: sample_bytes_def)
  qed
qed

subsection \<open>Properties\<close>

text \<open>
  C31. The client, once connected, with a token and answers of fewer than \<open>2\<^sup>3\<^sup>2 - 12\<close> bytes each, and a server that
  takes what it sends: it sends the AUTH frame first, and a sample only after an answer to everything sent
  before. If no answer comes it ends with \<^verbatim>\<open>eof\<close>, and if the first one is no ACK with ''AUTH rejected'', having sent
  no sample in either case. Otherwise it sends its samples in order, one more for every further answer (of
  whatever type), up to sixty; it finishes exactly if sixty-one answers came, and else ends with \<^verbatim>\<open>eof\<close>.\<close>

theorem client_sends_after_answers:
  assumes "length tok < 2 ^ 32 - 12" "\<forall>f \<in> set fs. length (payload f) < 2 ^ 32 - 12"
    and "sk_in c = concat (map encode fs)" "61 \<le> sk_writes c"
  shows "case fs of
      [] \<Rightarrow> \<exists>c'. run_client None tok sample c = Throw (System_error eof) c' \<and>
        sk_out c' = sk_out c @ encode \<lparr>msg_type = MsgType_AUTH, payload = tok\<rparr>
    | f # gs \<Rightarrow>
        if msg_type f \<noteq> MsgType_ACK
        then \<exists>c'. run_client None tok sample c = Throw (Std_exception ''AUTH rejected by server'') c' \<and>
          sk_out c' = sk_out c @ encode \<lparr>msg_type = MsgType_AUTH, payload = tok\<rparr>
        else \<exists>c'. run_client None tok sample c = (if 60 \<le> length gs then Ret () c' else Throw (System_error eof) c') \<and>
          sk_out c' = sk_out c @ encode \<lparr>msg_type = MsgType_AUTH, payload = tok\<rparr> @
            sample_bytes (map sample [0..<min 60 (Suc (length gs))])"
proof -
  let ?a = "\<lparr>msg_type = MsgType_AUTH, payload = tok\<rparr>"
  define xs where "xs = map sample [0..<60]"
  have xs: "length xs = 60" "take k xs = map sample [0..<min 60 k]" for k
    unfolding xs_def by (simp, simp only: take_map take_upt_min)
  obtain n where n: "sk_writes c = Suc n" "60 \<le> n" using assms(4) by (cases "sk_writes c") auto
  let ?c1 = "c\<lparr>sk_out := sk_out c @ encode ?a, sk_writes := n\<rparr>"
  have w: "write_frame ?a c = Ret () ?c1" using n assms(1) by (intro write_frame_encode) simp_all
  have run: "run_client None tok sample c = bnd read_frame (\<lambda>ack.
     if msg_type ack \<noteq> MsgType_ACK then throw (Std_exception ''AUTH rejected by server'')
     else bnd (print Authenticated) (\<lambda>_. bnd (client_loop 0 xs) (\<lambda>_. print Client_done))) ?c1"
    unfolding run_client_def client_frames plain_eq option.case ret_bnd Let_def xs_def [symmetric] by (simp add: bnd_def w)
  show ?thesis
  proof (cases fs)
    case Nil
    then have "read_frame ?c1 = Throw (System_error eof) (?c1\<lparr>sk_in := []\<rparr>)"
      using assms(3) by (intro read_frame_short) simp
    with Nil show ?thesis by (simp add: run bnd_def)
  next
    case (Cons f gs)
    let ?c2 = "?c1\<lparr>sk_in := concat (map encode gs), cout := cout c @ [Authenticated]\<rparr>"
    have r: "read_frame ?c1 = Ret f (?c1\<lparr>sk_in := concat (map encode gs)\<rparr>)"
      using assms(2,3) Cons by (intro read_frame_encode) simp_all
    have "\<forall>f \<in> set gs. length (payload f) < 2 ^ 32 - 12" "length xs \<le> sk_writes ?c2" using assms(2) Cons n xs(1) by simp_all
    then obtain c' where c': "sk_out c' = sk_out ?c2 @ sample_bytes (take (Suc (length gs)) xs)"
      "client_loop 0 xs ?c2 = (if 60 \<le> length gs then Ret () c' else Throw (System_error eof) c')"
      using client_loop_answers [of gs ?c2 xs 0] xs(1) by auto
    show ?thesis
      using c' unfolding xs(2) Cons
      by (auto simp: run bnd_def r print_def modify_def throw_def simp del: upt_rec_numeral)
  qed
qed

theorem client_sends_after_answers_witness:
  "\<exists>c'. run_client None [65] (\<lambda>i. (of_nat i, 7))
      \<lparr>sk_in = encode \<lparr>msg_type = MsgType_ACK, payload = []\<rparr> @ encode \<lparr>msg_type = MsgType_ERROR, payload = []\<rparr>,
       sk_out = [], sk_writes = 61, cout = []\<rparr> = Throw (System_error eof) c' \<and>
    sk_out c' = encode \<lparr>msg_type = MsgType_AUTH, payload = [65]\<rparr> @ sample_bytes [(0, 7), (1, 7)]"
proof -
  let ?fs = "[\<lparr>msg_type = MsgType_ACK, payload = []\<rparr>, \<lparr>msg_type = MsgType_ERROR, payload = []\<rparr>]"
  let ?c = "\<lparr>sk_in = concat (map encode ?fs), sk_out = [], sk_writes = 61, cout = []\<rparr>"
  have "map (\<lambda>i. (of_nat i, 7)) [0..<min 60 (Suc (length [\<lparr>msg_type = MsgType_ERROR, payload = []\<rparr>]))] = [(0, 7), (1, 7)]"
    by (simp add: upt_rec)
  with client_sends_after_answers [of "[65]" ?fs ?c "\<lambda>i. (of_nat i, 7)"] show ?thesis by simp
qed

end
