(* ===== verification/Telemetry_Sources.thy ===== *)
theory Telemetry_Sources
  imports Signal_Filters
begin

text \<open>
  The two telemetry sources of the daemon: \<^verbatim>\<open>FileSource\<close>, which replays the numbers of a text file, and
  \<^verbatim>\<open>SimulatedSource\<close>, which draws them. The contents of the file, the clock and the random draws are
  inputs; \<^verbatim>\<open>std::stod\<close> is modelled. The locale \<open>telemetry_source\<close> is the contract of the interface
  \<^verbatim>\<open>ITelemetrySource\<close>, and both sources provide it.
\<close>

subsection \<open>std::stod\<close>

definition is_space :: "char \<Rightarrow> bool" where
  "is_space c \<longleftrightarrow> c = CHR '' '' \<or> (9 \<le> (of_char c :: nat) \<and> (of_char c :: nat) \<le> 13)"

definition to_lower :: "char \<Rightarrow> char" where
  "to_lower c = (let n = (of_char c :: nat) in if 65 \<le> n \<and> n \<le> 90 then char_of (n + 32) else c)"

definition digit_of :: "char \<Rightarrow> nat option" where
  "digit_of c =
     (let n = (of_char (to_lower c) :: nat)
      in if 48 \<le> n \<and> n \<le> 57 then Some (n - 48)
         else if 97 \<le> n \<and> n \<le> 102 then Some (n - 87) else None)"

text \<open>The digits at the start in the given base: value (added to \<open>a\<close>), number of digits, rest.\<close>

fun scan_digits :: "nat \<Rightarrow> nat \<Rightarrow> string \<Rightarrow> nat \<times> nat \<times> string" where
  "scan_digits b a [] = (a, 0, [])"
| "scan_digits b a (c # cs) =
     (case digit_of c of
        Some d \<Rightarrow>
          if d < b then (case scan_digits b (a * b + d) cs of (v, n, r) \<Rightarrow> (v, Suc n, r))
          else (a, 0, c # cs)
      | None \<Rightarrow> (a, 0, c # cs))"

definition scan_sign :: "string \<Rightarrow> bool \<times> string" where
  "scan_sign s =
     (case s of
        c # cs \<Rightarrow> if c = CHR ''-'' then (True, cs) else if c = CHR ''+'' then (False, cs) else (False, s)
      | [] \<Rightarrow> (False, s))"

text \<open>Digits with an optional point; \<^const>\<open>None\<close> when there is no digit.\<close>

definition scan_mantissa :: "nat \<Rightarrow> string \<Rightarrow> (real \<times> string) option" where
  "scan_mantissa b s =
     (case scan_digits b 0 s of
        (i, n1, r1) \<Rightarrow>
          (case (case r1 of c # cs \<Rightarrow> if c = CHR ''.'' then scan_digits b i cs else (i, 0, r1)
                 | [] \<Rightarrow> (i, 0, r1)) of
             (f, n2, r2) \<Rightarrow>
               if n1 + n2 = 0 then None
               else Some (real f / real b ^ n2, r2)))"

text \<open>An exponent counts only if it has a digit.\<close>

definition scan_exponent :: "char \<Rightarrow> string \<Rightarrow> int" where
  "scan_exponent mark s =
     (case s of
        c # cs \<Rightarrow>
          if to_lower c = mark
          then (case scan_sign cs of
                  (neg, cs) \<Rightarrow>
                    (case scan_digits 10 0 cs of
                       (v, n, _) \<Rightarrow> if n = 0 then 0 else if neg then - int v else int v))
          else 0
      | [] \<Rightarrow> 0)"

definition scale :: "nat \<Rightarrow> int \<Rightarrow> real" where
  "scale b e = (if 0 \<le> e then real b ^ nat e else 1 / real b ^ nat (- e))"

fun starts_with_ci :: "string \<Rightarrow> string \<Rightarrow> bool" where
  "starts_with_ci [] s = True"
| "starts_with_ci (p # ps) [] = False"
| "starts_with_ci (p # ps) (c # cs) = (to_lower c = p \<and> starts_with_ci ps cs)"

definition strtod_magnitude :: "string \<Rightarrow> double option" where
  "strtod_magnitude s =
     (if starts_with_ci ''inf'' s then Some PInf
      else if starts_with_ci ''nan'' s then Some NaN
      else
        (case (if starts_with_ci ''0x'' s then scan_mantissa 16 (drop 2 s) else None) of
           Some (m, r) \<Rightarrow> Some (Fin (m * scale 2 (scan_exponent (CHR ''p'') r)))
         | None \<Rightarrow>
             (case scan_mantissa 10 s of
                Some (m, r) \<Rightarrow> Some (Fin (m * scale 10 (scan_exponent (CHR ''e'') r)))
              | None \<Rightarrow> None)))"

definition strtod :: "string \<Rightarrow> double option" where
  "strtod s =
     (case scan_sign (dropWhile is_space s) of
        (neg, r) \<Rightarrow> map_option (\<lambda>v. if neg then dneg v else v) (strtod_magnitude r))"

text \<open>
  Conversion fails without a number (\<^verbatim>\<open>std::invalid_argument\<close>) and outside the range of the type
  (\<^verbatim>\<open>std::out_of_range\<close>: rounding to an infinity, or a result below the smallest normal number that is not
  a multiple of the smallest subnormal one).
\<close>

definition in_range :: "real \<Rightarrow> bool" where
  "in_range v \<longleftrightarrow>
     \<bar>v\<bar> < 2 ^ 1024 - 2 ^ 970 \<and>
     (v = 0 \<or> 1 / 2 ^ 1022 \<le> \<bar>v\<bar> \<or> v * 2 ^ 1074 \<in> \<int>)"

definition stod :: "string \<Rightarrow> string + double" where
  "stod s =
     (case strtod s of
        None \<Rightarrow> Inl ''stod: invalid_argument''
      | Some (Fin v) \<Rightarrow> if in_range v then Inr (Fin v) else Inl ''stod: out_of_range''
      | Some d \<Rightarrow> Inr d)"

subsection \<open>FileSource\<close>

text \<open>
  The stream is the list of lines still to be read; opening a file that cannot be opened leaves nothing
  to read. \<open>path\<close> is what the path holds when it is opened.
\<close>

record file_source =
  fs_sensor_id :: string
  fs_loop :: bool
  fs_file :: "string list"

definition fs_reopen :: "string list option \<Rightarrow> file_source \<Rightarrow> file_source" where
  "fs_reopen path fs = fs\<lparr>fs_file := (case path of None \<Rightarrow> [] | Some ls \<Rightarrow> ls)\<rparr>"

definition fs_new :: "string \<Rightarrow> string list option \<Rightarrow> bool \<Rightarrow> file_source" where
  "fs_new sid path lp = fs_reopen path \<lparr>fs_sensor_id = sid, fs_loop = lp, fs_file = []\<rparr>"

text \<open>\<^verbatim>\<open>fetch\<close>: the next line that is neither empty nor a comment, and the lines after it.\<close>

fun fetch :: "string list \<Rightarrow> (string \<times> string list) option" where
  "fetch [] = None"
| "fetch (line # rest) =
     (if (case line of [] \<Rightarrow> False | c # _ \<Rightarrow> c \<noteq> CHR ''#'') then Some (line, rest) else fetch rest)"

definition fs_parse :: "file_source \<Rightarrow> string \<Rightarrow> int \<Rightarrow> telemetry_frame option" where
  "fs_parse fs line now =
     (case stod line of
        Inr val \<Rightarrow> Some \<lparr>sensor_id = fs_sensor_id fs, frame_value = val, timestamp = now\<rparr>
      | Inl _ \<Rightarrow> None)"

definition fs_read ::
  "string list option \<Rightarrow> int \<Rightarrow> file_source \<Rightarrow> file_source \<times> telemetry_frame option" where
  "fs_read path now fs =
     (case fetch (fs_file fs) of
        Some (line, rest) \<Rightarrow> (let fs = fs\<lparr>fs_file := rest\<rparr> in (fs, fs_parse fs line now))
      | None \<Rightarrow>
          (let fs = fs\<lparr>fs_file := []\<rparr> in
           if \<not> fs_loop fs then (fs, None)
           else
             let fs = fs_reopen path fs in
             (case fetch (fs_file fs) of
                Some (line, rest) \<Rightarrow> (let fs = fs\<lparr>fs_file := rest\<rparr> in (fs, fs_parse fs line now))
              | None \<Rightarrow> (fs\<lparr>fs_file := []\<rparr>, None))))"

subsection \<open>SimulatedSource\<close>

record simulated_source =
  ss_sensor_id :: string
  ss_mu :: double
  ss_sigma :: double
  ss_spike_prob :: double
  ss_spike_magnitude :: double

definition ss_new :: "string \<Rightarrow> double \<Rightarrow> double \<Rightarrow> double \<Rightarrow> double \<Rightarrow> simulated_source" where
  "ss_new sid mu sigma spike_prob spike_magnitude =
     \<lparr>ss_sensor_id = sid, ss_mu = mu, ss_sigma = sigma, ss_spike_prob = spike_prob,
      ss_spike_magnitude = spike_magnitude\<rparr>"

text \<open>\<open>(normal, uniform)\<close> are the draws of the two distributions.\<close>

definition ss_read ::
  "double \<times> double \<Rightarrow> int \<Rightarrow> simulated_source \<Rightarrow> simulated_source \<times> telemetry_frame option" where
  "ss_read draws now ss =
     (let val = fst draws;
          val = (if dless (snd draws) (ss_spike_prob ss)
                 then dadd (ss_mu ss) (dmul (ss_spike_magnitude ss) (ss_sigma ss)) else val)
      in (ss, Some \<lparr>sensor_id = ss_sensor_id ss, frame_value = val, timestamp = now\<rparr>))"

subsection \<open>The interface\<close>

text \<open>Successive reads, each with its input and time.\<close>

fun reads ::
  "('e \<Rightarrow> int \<Rightarrow> 's \<Rightarrow> 's \<times> telemetry_frame option) \<Rightarrow> ('e \<times> int) list \<Rightarrow> 's \<Rightarrow> telemetry_frame option list" where
  "reads rd [] s = []"
| "reads rd ((e, now) # xs) s = (case rd e now s of (s', fr) \<Rightarrow> fr # reads rd xs s')"

definition is_data :: "string \<Rightarrow> bool" where
  "is_data line \<longleftrightarrow> (case line of [] \<Rightarrow> False | c # _ \<Rightarrow> c \<noteq> CHR ''#'')"

text \<open>
  A source reads with an input of its environment at a time; its name never changes and is on every
  frame, with the time of the read.
\<close>

locale telemetry_source =
  fixes read :: "'e \<Rightarrow> int \<Rightarrow> 's \<Rightarrow> 's \<times> telemetry_frame option"
    and name :: "'s \<Rightarrow> string"
  assumes keeps_name: "name (fst (read e now s)) = name s"
    and frame_name: "snd (read e now s) = Some fr \<Longrightarrow> sensor_id fr = name s"
    and frame_time: "snd (read e now s) = Some fr \<Longrightarrow> timestamp fr = now"
begin

lemma reads_named:
  assumes "Some fr \<in> set (reads read xs s)"
  shows "sensor_id fr = name s \<and> timestamp fr \<in> snd ` set xs"
  using assms
proof (induction xs arbitrary: s)
  case (Cons x xs)
  obtain e now where x: "x = (e, now)" by (cases x)
  obtain s' r where r: "read e now s = (s', r)" by (cases "read e now s")
  show ?case
    using Cons keeps_name [of e now s] frame_name [of e now s fr] frame_time [of e now s fr]
    by (auto simp: x r)
qed simp

end

lemma fs_read_name: "fs_sensor_id (fst (fs_read path now fs)) = fs_sensor_id fs"
  by (simp add: fs_read_def Let_def fs_reopen_def split: option.split prod.split)

interpretation file_src: telemetry_source fs_read fs_sensor_id
  by unfold_locales
    (auto simp: fs_read_name, auto simp: fs_read_def Let_def fs_reopen_def fs_parse_def
      split: option.splits prod.splits sum.splits if_splits)

interpretation sim_src: telemetry_source ss_read ss_sensor_id
  by unfold_locales (auto simp: ss_read_def Let_def)

subsection \<open>Replay\<close>

lemma fetch_Cons: "fetch (l # r) = (if is_data l then Some (l, r) else fetch r)"
  by (simp add: is_data_def)

lemma fetch_filter:
  "case filter is_data ls of
     [] \<Rightarrow> fetch ls = None
   | l # ls' \<Rightarrow> \<exists>rest. fetch ls = Some (l, rest) \<and> filter is_data rest = ls'"
  by (induction ls) (auto simp: fetch_Cons simp del: fetch.simps(2) split: list.splits)

lemma fs_parse_file [simp]: "fs_parse (fs\<lparr>fs_file := r\<rparr>) = fs_parse fs"
  by (simp add: fs_parse_def fun_eq_iff split: sum.split)

lemma fs_read_data:
  assumes "filter is_data (fs_file fs) = l # ls'"
  shows "\<exists>rest. fs_read path now fs = (fs\<lparr>fs_file := rest\<rparr>, fs_parse fs l now) \<and> filter is_data rest = ls'"
  using fetch_filter [of "fs_file fs"] assms by (auto simp: fs_read_def Let_def)

lemma fs_read_wrap:
  assumes "filter is_data (fs_file fs) = []" "fs_loop fs" "filter is_data ls = l # ls'"
  shows "\<exists>rest. fs_read (Some ls) now fs = (fs\<lparr>fs_file := rest\<rparr>, fs_parse fs l now) \<and> filter is_data rest = ls'"
  using fetch_filter [of "fs_file fs"] fetch_filter [of ls] assms
  by (auto simp: fs_read_def Let_def fs_reopen_def)

lemma fs_read_end:
  "filter is_data (fs_file fs) = [] \<Longrightarrow> \<not> fs_loop fs \<Longrightarrow> fs_read path now fs = (fs\<lparr>fs_file := []\<rparr>, None)"
  using fetch_filter [of "fs_file fs"] by (auto simp: fs_read_def Let_def)

lemma fs_read_step:
  assumes "filter is_data (fs_file fs) = drop j d" "j \<le> length d" "d = filter is_data ls" "d \<noteq> []" "fs_loop fs"
  shows "\<exists>rest. fs_read (Some ls) now fs = (fs\<lparr>fs_file := rest\<rparr>, fs_parse fs (d ! (j mod length d)) now) \<and>
    filter is_data rest = drop (Suc (j mod length d)) d"
proof (cases "j < length d")
  case True
  then show ?thesis using fs_read_data [of fs "d ! j"] assms(1) by (simp add: Cons_nth_drop_Suc [symmetric])
next
  case False
  then have j: "j = length d" using assms(2) by simp
  obtain l ls' where d: "d = l # ls'" using assms(4) by (cases d) auto
  show ?thesis
    using fs_read_wrap [OF _ assms(5), of ls l ls' now] assms(1) j by (simp add: d assms(3) [symmetric])
qed

lemma fs_reads_cycle:
  assumes "filter is_data (fs_file fs) = drop j d" "j \<le> length d" "d = filter is_data ls" "d \<noteq> []" "fs_loop fs"
  shows "reads fs_read (map (Pair (Some ls)) ts) fs =
    map (\<lambda>k. fs_parse fs (d ! ((j + k) mod length d)) (ts ! k)) [0..<length ts]"
  using assms(1,2,5)
proof (induction ts arbitrary: fs j)
  case (Cons t ts)
  let ?j = "Suc (j mod length d)"
  have j': "?j \<le> length d" using assms(4) by (simp add: Suc_le_eq)
  obtain rest where r: "fs_read (Some ls) t fs = (fs\<lparr>fs_file := rest\<rparr>, fs_parse fs (d ! (j mod length d)) t)"
    "filter is_data rest = drop ?j d"
    using fs_read_step [OF Cons.prems(1,2) assms(3,4) Cons.prems(3)] by blast
  have "reads fs_read (map (Pair (Some ls)) ts) (fs\<lparr>fs_file := rest\<rparr>) =
      map (\<lambda>k. fs_parse fs (d ! ((?j + k) mod length d)) (ts ! k)) [0..<length ts]"
    using Cons.IH [of "fs\<lparr>fs_file := rest\<rparr>" ?j] r(2) j' Cons.prems(3) by simp
  moreover have "(?j + k) mod length d = (j + Suc k) mod length d" for k
    by (metis add_Suc add_Suc_right mod_add_left_eq)
  ultimately show ?case
    by (simp add: r(1) upt_conv_Cons map_Suc_upt [symmetric] del: upt_Suc)
qed simp

subsection \<open>Properties\<close>

text \<open>
  C34. A looping file source replays the data lines of its file (the lines that are neither empty nor
  comments) in order and cyclically: the \<open>k\<close>-th read takes the \<open>k\<close>-th data line modulo their number and
  returns its number under the source's name, or nothing if the line is not a number in range.\<close>

theorem file_source_replays_cyclically:
  assumes "filter is_data ls \<noteq> []"
  shows "reads fs_read (map (Pair (Some ls)) ts) (fs_new sid (Some ls) True) =
    map (\<lambda>k. case stod (filter is_data ls ! (k mod length (filter is_data ls))) of
          Inr val \<Rightarrow> Some \<lparr>sensor_id = sid, frame_value = val, timestamp = ts ! k\<rparr>
        | Inl _ \<Rightarrow> None) [0..<length ts]"
  using fs_reads_cycle [of "fs_new sid (Some ls) True" 0 "filter is_data ls" ls ts] assms
  by (simp add: fs_new_def fs_reopen_def fs_parse_def cong: sum.case_cong)

theorem file_source_replays_cyclically_witness:
  "reads fs_read (map (Pair (Some [''# raw'', ''12'', [], ''x''])) [7, 8, 9]) (fs_new ''s'' (Some [''# raw'', ''12'', [], ''x'']) True) =
    [Some \<lparr>sensor_id = ''s'', frame_value = Fin 12, timestamp = 7\<rparr>, None,
     Some \<lparr>sensor_id = ''s'', frame_value = Fin 12, timestamp = 9\<rparr>]"
proof -
  have "stod ''12'' = Inr (Fin 12)" "stod ''x'' = Inl ''stod: invalid_argument''"
    by (simp_all add: stod_def strtod_def strtod_magnitude_def is_space_def scan_sign_def scan_mantissa_def
        to_lower_def digit_of_def scan_exponent_def scale_def in_range_def)
  then show ?thesis
    using file_source_replays_cyclically [of "[''# raw'', ''12'', [], ''x'']" "[7, 8, 9]" "''s''"]
    by (simp add: is_data_def)
qed

end
