(* ===== verification/Command_Line.thy ===== *)
theory Command_Line
  imports Telemetry_Sources
begin

text \<open>What the \<^verbatim>\<open>main\<close> functions share: arguments, \<^verbatim>\<open>std::stoi\<close>, and how a program ends.\<close>

text \<open>How a program ends before its service runs: by returning from \<^verbatim>\<open>main\<close>, or by an exception nobody catches.\<close>

datatype main_exit = Exit int | Terminate string

definition nth_arg :: "string list \<Rightarrow> nat \<Rightarrow> string option" where
  "nth_arg argv i = (if i < length argv then Some (argv ! i) else None)"

text \<open>
  \<^verbatim>\<open>std::stoi\<close>: blanks, sign, digits. No digit, and a value outside the 32-bit range, are exceptions whose
  text is \<^verbatim>\<open>stoi\<close>.
\<close>

definition stoi :: "string \<Rightarrow> string + int" where
  "stoi s =
     (case scan_sign (dropWhile is_space s) of
        (neg, r) \<Rightarrow>
          (case scan_digits 10 0 r of
             (v, n, _) \<Rightarrow>
               let i = (if neg then - int v else int v)
               in if n = 0 \<or> i < - 2147483648 \<or> 2147483647 < i then Inl ''stoi'' else Inr i))"

text \<open>The result of \<^verbatim>\<open>std::stoi\<close> fits an \<^verbatim>\<open>int\<close>.\<close>

lemma stoi_range: "stoi s = Inr i \<Longrightarrow> - 2147483648 \<le> i \<and> i \<le> 2147483647"
  by (auto simp: stoi_def Let_def split: prod.splits if_splits)

end
