(* ===== verification/Async_Main.thy ===== *)
theory Async_Main
  imports Telemetry_Client Command_Line
begin

text \<open>
  The programs around the sessions of the telemetry server: the configuration and threads of the server's
  \<^verbatim>\<open>main\<close>, the accept loop \<^verbatim>\<open>listen\<close>, and the \<^verbatim>\<open>main\<close> of the client.
\<close>

subsection \<open>The server\<close>

record server_config =
  cfg_port :: u16
  cfg_db :: string
  cfg_cert :: string
  cfg_key :: string

text \<open>The port is cast to 16 bits whatever number the variable holds.\<close>

definition server_config_of :: "(string \<Rightarrow> string option) \<Rightarrow> main_exit + server_config" where
  "server_config_of env =
     (case (case env ''SERVER_PORT'' of Some a \<Rightarrow> stoi a | None \<Rightarrow> Inr 8443) of
        Inl e \<Rightarrow> Inl (Terminate e)
      | Inr port \<Rightarrow>
          Inr \<lparr>cfg_port = of_int port,
               cfg_db = (case env ''DATABASE_URL'' of Some a \<Rightarrow> a | None \<Rightarrow> ''postgresql://localhost/telemetry''),
               cfg_cert = (case env ''TLS_CERT_PATH'' of Some a \<Rightarrow> a | None \<Rightarrow> ''certs/server.crt''),
               cfg_key = (case env ''TLS_KEY_PATH'' of Some a \<Rightarrow> a | None \<Rightarrow> ''certs/server.key'')\<rparr>)"

text \<open>
  The calls of Boost.Asio and OpenSSL that build a server: binding the port, the option of the acceptor, the
  files of the certificate and of the key (each may throw, with a message), and the two settings of the
  context, which return whether they took effect.
\<close>

record net_calls =
  bind_acceptor :: "u16 \<Rightarrow> string option"
  set_reuse_address :: "bool \<Rightarrow> string option"
  set_min_proto_version :: "int \<Rightarrow> bool"
  use_certificate_chain_file :: "string \<Rightarrow> string option"
  use_private_key_file :: "string \<Rightarrow> string option"
  set_ciphersuites :: "string \<Rightarrow> bool"

record tcp_server =
  srv_port :: u16
  reuse_address :: bool

text \<open>The context of a TLS server; a setting that was not made is absent and the library's default applies.\<close>

record tls_server = tcp_server +
  min_proto :: "int option"
  cert_chain :: string
  private_key :: string
  ciphersuites :: "string option"

definition TLS1_3_VERSION :: int where
  "TLS1_3_VERSION = 0x0304"

definition tcp_server_new :: "net_calls \<Rightarrow> u16 \<Rightarrow> string + tcp_server" where
  "tcp_server_new io port =
     (case bind_acceptor io port of
        Some e \<Rightarrow> Inl e
      | None \<Rightarrow>
          (case set_reuse_address io True of
             Some e \<Rightarrow> Inl e
           | None \<Rightarrow> Inr \<lparr>srv_port = port, reuse_address = True\<rparr>))"

text \<open>The results of the two settings are not looked at.\<close>

definition tls_server_new :: "net_calls \<Rightarrow> u16 \<Rightarrow> string \<Rightarrow> string \<Rightarrow> string + tls_server" where
  "tls_server_new io port cert_file key_file =
     (case tcp_server_new io port of
        Inl e \<Rightarrow> Inl e
      | Inr t \<Rightarrow>
          let proto = (if set_min_proto_version io TLS1_3_VERSION then Some TLS1_3_VERSION else None)
          in case use_certificate_chain_file io cert_file of
               Some e \<Rightarrow> Inl e
             | None \<Rightarrow>
                 (case use_private_key_file io key_file of
                    Some e \<Rightarrow> Inl e
                  | None \<Rightarrow>
                      let names = ''TLS_AES_256_GCM_SHA384:TLS_CHACHA20_POLY1305_SHA256'';
                          suites = (if set_ciphersuites io names then Some names else None)
                      in Inr \<lparr>srv_port = srv_port t, reuse_address = reuse_address t, min_proto = proto,
                           cert_chain = cert_file, private_key = key_file, ciphersuites = suites\<rparr>))"

text \<open>
  \<^verbatim>\<open>main\<close>: the pool, then the server, are built; an exception of either ends the program. \<open>nthreads\<close> is what
  \<^verbatim>\<open>hardware_concurrency\<close> returns (zero if it is not known). The result is what the threads serve, and their
  number.
\<close>

definition server_main ::
  "(string \<Rightarrow> string option) \<Rightarrow> ('w, 'c) pqxx \<Rightarrow> 'w \<Rightarrow> net_calls \<Rightarrow> nat \<Rightarrow>
   main_exit + ('w, 'c) db_pool \<times> tls_server \<times> nat" where
  "server_main env pq w io nthreads =
     (case server_config_of env of
        Inl e \<Rightarrow> Inl e
      | Inr c \<Rightarrow>
          (case db_pool_new pq (cfg_db c) w of
             (Inl e, _) \<Rightarrow> Inl (Terminate e)
           | (Inr pool, _) \<Rightarrow>
               (case tls_server_new io (cfg_port c) (cfg_cert c) (cfg_key c) of
                  Inl e \<Rightarrow> Inl (Terminate e)
                | Inr srv \<Rightarrow>
                    let threads = replicate nthreads ()
                    in if threads = [] then Inl (Exit 0) else Inr (pool, srv, length threads))))"

text \<open>
  The accept loop: an accepted connection starts a session, a failing accept throws out of the loop (the
  exception is dropped, since the coroutine is detached), and a signal stops the context.
\<close>

datatype 'c accept_event = Accepted 'c | Accept_failed errc | Signalled

record 'c listener =
  spawned :: "'c list"
  accepting :: bool
  ctx_stopped :: bool

definition listen_start :: "'c listener" where
  "listen_start = \<lparr>spawned = [], accepting = True, ctx_stopped = False\<rparr>"

definition listen_step :: "'c accept_event \<Rightarrow> 'c listener \<Rightarrow> 'c listener" where
  "listen_step ev l =
     (if \<not> accepting l \<or> ctx_stopped l then l
      else
        case ev of
          Accepted c \<Rightarrow> l\<lparr>spawned := spawned l @ [c]\<rparr>
        | Accept_failed e \<Rightarrow> l\<lparr>accepting := False\<rparr>
        | Signalled \<Rightarrow> l\<lparr>ctx_stopped := True\<rparr>)"

text \<open>The loop of the TLS server gives each connection the server's TLS context.\<close>

definition tls_listen_step ::
  "tls_server \<Rightarrow> 'c accept_event \<Rightarrow> ('c \<times> tls_server) listener \<Rightarrow> ('c \<times> tls_server) listener" where
  "tls_listen_step tls_ctx ev l =
     (if \<not> accepting l \<or> ctx_stopped l then l
      else
        case ev of
          Accepted c \<Rightarrow> let stream = (c, tls_ctx) in l\<lparr>spawned := spawned l @ [stream]\<rparr>
        | Accept_failed e \<Rightarrow> l\<lparr>accepting := False\<rparr>
        | Signalled \<Rightarrow> l\<lparr>ctx_stopped := True\<rparr>)"

subsection \<open>The client\<close>

definition client_main :: "string list \<Rightarrow> main_exit + string \<times> u16 \<times> string" where
  "client_main argv =
     (if length argv < 4 then Inl (Exit 1)
      else
        case stoi (argv ! 2) of
          Inl e \<Rightarrow> Inl (Terminate e)
        | Inr port \<Rightarrow> Inr (argv ! 1, of_int port, argv ! 3))"

subsection \<open>Lemmas\<close>

fun is_accepted :: "'c accept_event \<Rightarrow> bool" where
  "is_accepted (Accepted c) = True"
| "is_accepted _ = False"

fun connection :: "'c accept_event \<Rightarrow> 'c list" where
  "connection (Accepted c) = [c]"
| "connection _ = []"

text \<open>
  A session is started for every connection up to the first failing accept or signal, and for none after it:
  one failing accept (such as running out of descriptors) ends the accepting for good.
\<close>

lemma listen_until_first_failure:
  "spawned (fold listen_step evs listen_start) = concat (map connection (takeWhile is_accepted evs))"
proof -
  have stuck: "\<not> accepting l \<or> ctx_stopped l \<Longrightarrow> fold listen_step evs l = l" for l :: "'a listener" and evs
    by (induction evs) (simp_all add: listen_step_def)
  have steps: "listen_step (Accepted c) l = l\<lparr>spawned := spawned l @ [c]\<rparr>" "listen_step (Accept_failed e) l = l\<lparr>accepting := False\<rparr>"
      "listen_step Signalled l = l\<lparr>ctx_stopped := True\<rparr>" if "accepting l" "\<not> ctx_stopped l" for c e and l :: "'a listener"
    using that by (simp_all add: listen_step_def)
  have "accepting l \<Longrightarrow> \<not> ctx_stopped l \<Longrightarrow>
      spawned (fold listen_step evs l) = spawned l @ concat (map connection (takeWhile is_accepted evs))" for l :: "'a listener"
  proof (induction evs arbitrary: l)
    case (Cons ev evs)
    then show ?case by (cases ev) (simp_all add: steps stuck)
  qed simp
  then show ?thesis by (simp add: listen_start_def)
qed

lemma tls_listen_until_first_failure:
  "map fst (spawned (fold (tls_listen_step tls_ctx) evs listen_start)) = concat (map connection (takeWhile is_accepted evs))"
  "\<forall>st \<in> set (spawned (fold (tls_listen_step tls_ctx) evs listen_start)). snd st = tls_ctx"
proof -
  have "tls_listen_step tls_ctx ev l = listen_step (map_accept_event (\<lambda>c. (c, tls_ctx)) ev) l" for ev :: "'a accept_event" and l
    by (cases ev) (simp_all add: tls_listen_step_def listen_step_def)
  then have "fold (tls_listen_step tls_ctx) evs l = fold listen_step (map (map_accept_event (\<lambda>c. (c, tls_ctx))) evs) l" for l
    by (induction evs arbitrary: l) simp_all
  moreover have "concat (map connection (takeWhile is_accepted (map (map_accept_event (\<lambda>c. (c, tls_ctx))) evs))) =
      map (\<lambda>c. (c, tls_ctx)) (concat (map connection (takeWhile is_accepted evs)))"
  proof (induction evs)
    case (Cons ev evs)
    then show ?case by (cases ev) simp_all
  qed simp
  ultimately have "spawned (fold (tls_listen_step tls_ctx) evs listen_start) =
      map (\<lambda>c. (c, tls_ctx)) (concat (map connection (takeWhile is_accepted evs)))"
    by (simp only: listen_until_first_failure)
  then show "map fst (spawned (fold (tls_listen_step tls_ctx) evs listen_start)) = concat (map connection (takeWhile is_accepted evs))"
    "\<forall>st \<in> set (spawned (fold (tls_listen_step tls_ctx) evs listen_start)). snd st = tls_ctx"
    by (auto simp: comp_def)
qed

text \<open>A port above 65535 is not refused but taken modulo 65536, by the server and by the client.\<close>

lemma server_port_wraps:
  "env ''SERVER_PORT'' = Some a \<Longrightarrow> stoi a = Inr p \<Longrightarrow>
     \<exists>c. server_config_of env = Inr c \<and> uint (cfg_port c) = p mod 65536"
  by (simp add: server_config_of_def uint_word_of_int_eq take_bit_eq_mod)

lemma client_port_wraps:
  "stoi port = Inr p \<Longrightarrow> \<exists>w. client_main [prog, host, port, token] = Inr (host, w, token) \<and> uint w = p mod 65536"
  by (simp add: client_main_def uint_word_of_int_eq take_bit_eq_mod)

lemma server_without_known_cores_ends:
  "(case server_main env pq w io 0 of Inl _ \<Rightarrow> True | Inr _ \<Rightarrow> False)"
  by (simp add: server_main_def Let_def split: sum.splits prod.splits)

text \<open>
  A server that starts has a full pool, on which a session can start at once, and the certificate, key and
  port of its configuration; its protocol is restricted to TLS 1.3 exactly if the library took the setting.
\<close>

lemma connect_all_length: "connect_all pq cs n w = (Inr conns, w') \<Longrightarrow> length conns = n"
  by (induction n arbitrary: w conns w') (auto split: prod.splits sum.splits)

lemma server_main_serves:
  assumes "server_main env pq w io n = Inr (pool, srv, k)"
  shows "pool_wf pool \<and> sem pool = POOL_SIZE \<and> k = n \<and> 0 < n \<and>
    (\<exists>c. server_config_of env = Inr c \<and> srv_port srv = cfg_port c \<and> cert_chain srv = cfg_cert c \<and> private_key srv = cfg_key c) \<and>
    (min_proto srv = Some TLS1_3_VERSION \<longleftrightarrow> set_min_proto_version io TLS1_3_VERSION)"
  using assms connect_all_length [of pq _ POOL_SIZE w]
  by (auto simp: server_main_def db_pool_new_def tls_server_new_def tcp_server_new_def pool_wf_def Let_def POOL_SIZE_def
      split: sum.splits prod.splits option.splits if_splits)

end
