(* ===== verification/Token_Issuer.thy ===== *)
theory Token_Issuer
  imports Telemetry_Client
begin

text \<open>
  \<^verbatim>\<open>token_issuer/main.py\<close>: the service that gives a client its token. The library that signs the token is a
  parameter, as are the clock and the environment variable \<^verbatim>\<open>JWT_SECRET\<close>. The issuer is composed with the
  server: a token it issues opens a session.
\<close>

subsection \<open>The service\<close>

record token_request =
  client_id :: string
  client_secret :: string

record token_response =
  access_token :: string
  token_type :: string
  expires_in :: int

record token_payload =
  p_iss :: string
  p_sub :: string
  p_iat :: int
  p_exp :: int

record http_exception =
  status_code :: int
  http_detail :: string

definition issuer_name :: string where
  "issuer_name = ''https://auth.nexburg.internal''"

text \<open>The secret is read once, when the service starts, and has a default.\<close>

definition issuer_secret :: "string option \<Rightarrow> string" where
  "issuer_secret env = (case env of Some s \<Rightarrow> s | None \<Rightarrow> ''dev_secret_change_in_prod'')"

definition TTL_S :: int where
  "TTL_S = 3600"

definition CLIENTS :: "(string \<times> string) list" where
  "CLIENTS = [(''test_client'', ''test_pass''), (''sensor_node_1'', ''sensor_pass'')]"

text \<open>The conversion of a float to an integer drops the fraction.\<close>

definition py_int :: "real \<Rightarrow> int" where
  "py_int x = (if 0 \<le> x then \<lfloor>x\<rfloor> else \<lceil>x\<rceil>)"

definition token_payload_of :: "real \<Rightarrow> token_request \<Rightarrow> token_payload" where
  "token_payload_of clock req =
     (let now = py_int clock
      in \<lparr>p_iss = issuer_name, p_sub = client_id req, p_iat = now, p_exp = now + TTL_S\<rparr>)"

definition issue_token ::
  "(token_payload \<Rightarrow> string \<Rightarrow> string \<Rightarrow> string) \<Rightarrow> string \<Rightarrow> real \<Rightarrow> token_request \<Rightarrow> http_exception + token_response" where
  "issue_token sign secret clock req =
     (if map_of CLIENTS (client_id req) \<noteq> Some (client_secret req)
      then Inl \<lparr>status_code = 401, http_detail = ''invalid credentials''\<rparr>
      else
        let token = sign (token_payload_of clock req) secret ''HS256''
        in Inr \<lparr>access_token = token, token_type = ''bearer'', expires_in = TTL_S\<rparr>)"

subsection \<open>Specification\<close>


subsection \<open>Lemmas\<close>




text \<open>
  Without the environment variable the two sides differ: the service issues tokens, signed with its default
  secret, and the server accepts none of them.
\<close>

lemma unset_secret_is_never_accepted:
  assumes "(client_id req, client_secret req) \<in> set CLIENTS"
  shows "\<exists>r. issue_token sign (issuer_secret None) clock req = Inr r \<and> \<not> ok (validate j None (access_token r))"
proof -
  have "map_of CLIENTS (client_id req) = Some (client_secret req)"
    using assms by (auto simp: CLIENTS_def)
  then show ?thesis by (simp add: issue_token_def validate_def Let_def)
qed

subsection \<open>Properties\<close>





end
