(* ===== verification/Daemon_Bus.thy ===== *)
theory Daemon_Bus
  imports State_Manager Telemetry_Sources
begin

text \<open>
  \<^verbatim>\<open>DaemonBus\<close>, the D-Bus object of the daemon: its life cycle, the two signals, and the handlers of its
  methods and its property. The results of the sd-bus calls, the lines of \<^verbatim>\<open>/proc/self/status\<close> and the
  clock (in nanoseconds) are inputs. The bus is the world on which the callbacks of the state manager act.
  The state manager is reached through a weak pointer, which is empty once it has been destroyed.
\<close>

subsection \<open>State\<close>

datatype bus_signal = StateChanged string string | AlarmRaised string double double

record daemon_bus =
  bus_open :: bool
  slot_open :: bool
  bus_running :: bool
  worker_stop :: bool
  worker_joinable :: bool
  processed_count :: u64
  start_time :: int
  emitted :: "bus_signal list"

definition bus_new :: "int \<Rightarrow> daemon_bus" where
  "bus_new now =
     \<lparr>bus_open = False, slot_open = False, bus_running = False, worker_stop = False,
      worker_joinable = False, processed_count = 0, start_time = now, emitted = []\<rparr>"

text \<open>
  The results of opening the bus, of adding the object and of requesting the name are inputs. Starting the
  worker of a bus whose worker was not joined ends the program (\<^verbatim>\<open>std::terminate\<close>): \<^const>\<open>None\<close>.
\<close>

definition bus_start :: "int \<Rightarrow> int \<Rightarrow> int \<Rightarrow> daemon_bus \<Rightarrow> (daemon_bus \<times> bool) option" where
  "bus_start r_open r_vtable r_name b =
     (if r_open < 0 then Some (b, False)
      else
        let b = b\<lparr>bus_open := True\<rparr> in
        if r_vtable < 0 then Some (b, False)
        else
          let b = b\<lparr>slot_open := True\<rparr> in
          if r_name < 0 then Some (b, False)
          else
            let b = b\<lparr>bus_running := True, worker_stop := False\<rparr> in
            if worker_joinable b then None else Some (b\<lparr>worker_joinable := True\<rparr>, True))"

text \<open>
  The worker: \<open>stops\<close> are the values its successive reads of the flag return, and \<open>process\<close> is the library's
  handling of one message, which returns a positive number if there was one. The result says what it did
  and whether it has returned.
\<close>

datatype worker_action = Processed int | Waited_us nat

fun worker_loop :: "('b \<Rightarrow> int \<times> 'b) \<Rightarrow> bool list \<Rightarrow> 'b \<Rightarrow> 'b \<times> worker_action list \<times> bool" where
  "worker_loop process [] b = (b, [], False)"
| "worker_loop process (stop # stops) b =
     (if stop then (b, [], True)
      else
        case process b of
          (rc, b) \<Rightarrow>
            (case worker_loop process stops b of
               (b, acts, returned) \<Rightarrow>
                 (b, (if 0 < rc then [Processed rc] else [Processed rc, Waited_us 10000]) @ acts, returned)))"

definition bus_stop :: "daemon_bus \<Rightarrow> daemon_bus" where
  "bus_stop b =
     (if \<not> bus_running b then b
      else
        let b = b\<lparr>bus_running := False\<rparr>;
            b = b\<lparr>worker_stop := True\<rparr>;
            b = b\<lparr>worker_joinable := False\<rparr>;
            b = (if slot_open b then b\<lparr>slot_open := False\<rparr> else b)
        in if bus_open b then b\<lparr>bus_open := False\<rparr> else b)"

definition bus_destroy :: "daemon_bus \<Rightarrow> daemon_bus" where
  "bus_destroy b = bus_stop b"

text \<open>
  \<open>emitted\<close> is what was handed to \<^verbatim>\<open>sd_bus_emit_signal\<close>, in that order. The code does not look at the result of
  that call, so a signal the library could not send is in the list too.
\<close>

definition emitStateChanged :: "daemon_state \<Rightarrow> daemon_state \<Rightarrow> daemon_bus \<Rightarrow> daemon_bus" where
  "emitStateChanged new_state prev_state b =
     (if \<not> bus_open b then b
      else b\<lparr>emitted := emitted b @ [StateChanged (stateToString new_state) (stateToString prev_state)]\<rparr>)"

definition emitAlarmRaised :: "string \<Rightarrow> double \<Rightarrow> double \<Rightarrow> daemon_bus \<Rightarrow> daemon_bus" where
  "emitAlarmRaised sid val thr b =
     (if \<not> bus_open b then b else b\<lparr>emitted := emitted b @ [AlarmRaised sid val thr]\<rparr>)"

subsection \<open>Handlers\<close>

datatype bus_reply =
    Reply_empty
  | Reply_diag u64 u64 string u64
  | Reply_state string
  | Reply_error string string

text \<open>
  \<^verbatim>\<open>sscanf\<close> with \<^verbatim>\<open>%lu\<close>: blanks, an optional sign, digits; the largest value on overflow; a result that
  was not assigned keeps its 0.
\<close>

definition scan_lu :: "string \<Rightarrow> u64" where
  "scan_lu s =
     (case scan_sign (dropWhile is_space s) of
        (neg, r) \<Rightarrow>
          (case scan_digits 10 0 r of
             (v, n, _) \<Rightarrow>
               if n = 0 then 0
               else if 2 ^ 64 \<le> v then - 1
               else if neg then - of_nat v else of_nat v))"

fun rss_kb :: "string list \<Rightarrow> u64" where
  "rss_kb [] = 0"
| "rss_kb (line # ls) =
     (if take 6 line = ''VmRSS:'' then scan_lu (drop 6 line) else rss_kb ls)"

definition method_start ::
  "'w state_manager option \<Rightarrow> 'w \<Rightarrow> 'w state_manager option \<times> 'w \<times> bus_reply" where
  "method_start sm_weak w =
     (case sm_weak of
        Some sm \<Rightarrow>
          (case sm_start sm w of
             Inl e \<Rightarrow> (Some sm, w, Reply_error ''org.agntx.Error.InvalidState'' e)
           | Inr (sm, w) \<Rightarrow> (Some sm, w, Reply_empty))
      | None \<Rightarrow> (None, w, Reply_empty))"

definition method_halt ::
  "'w state_manager option \<Rightarrow> 'w \<Rightarrow> 'w state_manager option \<times> 'w \<times> bus_reply" where
  "method_halt sm_weak w =
     (case sm_weak of
        Some sm \<Rightarrow> (case sm_halt sm w of (sm, w) \<Rightarrow> (Some sm, w, Reply_empty))
      | None \<Rightarrow> (None, w, Reply_empty))"

definition method_diagnostics ::
  "string list \<Rightarrow> int \<Rightarrow> 'w state_manager option \<Rightarrow> daemon_bus \<Rightarrow> bus_reply" where
  "method_diagnostics status now sm_weak b =
     (let rss = rss_kb status;
          cnt = processed_count b;
          uptime = (of_int ((now - start_time b) div 1000000000) :: u64);
          state_str = (case sm_weak of Some sm \<Rightarrow> stateToString (sm_state sm) | None \<Rightarrow> ''IDLE'')
      in Reply_diag rss cnt state_str uptime)"

definition prop_current_state :: "'w state_manager option \<Rightarrow> bus_reply" where
  "prop_current_state sm_weak =
     Reply_state (case sm_weak of Some sm \<Rightarrow> stateToString (sm_state sm) | None \<Rightarrow> ''IDLE'')"

subsection \<open>The object's table\<close>

datatype bus_handler = Method_start | Method_halt | Method_diagnostics | Prop_current_state

text \<open>A method with the types of its arguments and results, a signal, a property with its type.\<close>

datatype vtable_entry =
    Vt_method string string string bus_handler
  | Vt_signal string string
  | Vt_property string string bus_handler

definition daemon_vtable :: "vtable_entry list" where
  "daemon_vtable =
     [Vt_method ''Start'' [] [] Method_start,
      Vt_method ''Halt'' [] [] Method_halt,
      Vt_method ''RunDiagnostics'' [] ''(ttst)'' Method_diagnostics,
      Vt_signal ''StateChanged'' ''ss'',
      Vt_signal ''AlarmRaised'' ''sdd'',
      Vt_property ''CurrentState'' ''s'' Prop_current_state]"

fun method_entry :: "string \<Rightarrow> vtable_entry list \<Rightarrow> (bus_handler \<times> string) option" where
  "method_entry m [] = None"
| "method_entry m (Vt_method n args res h # es) = (if m = n then Some (h, res) else method_entry m es)"
| "method_entry m (_ # es) = method_entry m es"

fun property_entry :: "string \<Rightarrow> vtable_entry list \<Rightarrow> (bus_handler \<times> string) option" where
  "property_entry m [] = None"
| "property_entry m (Vt_property n ty h # es) = (if m = n then Some (h, ty) else property_entry m es)"
| "property_entry m (_ # es) = property_entry m es"

fun run_handler ::
  "bus_handler \<Rightarrow> string list \<Rightarrow> int \<Rightarrow> daemon_bus state_manager option \<Rightarrow> daemon_bus \<Rightarrow>
   daemon_bus state_manager option \<times> daemon_bus \<times> bus_reply" where
  "run_handler Method_start status now sm b = method_start sm b"
| "run_handler Method_halt status now sm b = method_halt sm b"
| "run_handler Method_diagnostics status now sm b = (sm, b, method_diagnostics status now sm b)"
| "run_handler Prop_current_state status now sm b = (sm, b, prop_current_state sm)"

text \<open>A call by name, if the table has the method; what the library answers otherwise is its own.\<close>

definition bus_call ::
  "string \<Rightarrow> string list \<Rightarrow> int \<Rightarrow> daemon_bus state_manager option \<Rightarrow> daemon_bus \<Rightarrow>
   (daemon_bus state_manager option \<times> daemon_bus \<times> bus_reply) option" where
  "bus_call m status now sm b =
     (case method_entry m daemon_vtable of
        None \<Rightarrow> None
      | Some (h, _) \<Rightarrow> Some (run_handler h status now sm b))"

text \<open>The types of what is sent: of a signal, and of a reply that is not an error.\<close>

fun signal_type :: "bus_signal \<Rightarrow> string \<times> string" where
  "signal_type (StateChanged _ _) = (''StateChanged'', ''ss'')"
| "signal_type (AlarmRaised _ _ _) = (''AlarmRaised'', ''sdd'')"

fun reply_type :: "bus_reply \<Rightarrow> string option" where
  "reply_type Reply_empty = Some []"
| "reply_type (Reply_diag _ _ _ _) = Some ''(ttst)''"
| "reply_type (Reply_state _) = Some ''s''"
| "reply_type (Reply_error _ _) = None"

subsection \<open>Properties\<close>

text \<open>Every signal is declared in the table with its types, and every reply has the declared types or is an error.\<close>

lemma signals_declared: "(case signal_type sig of (n, ty) \<Rightarrow> Vt_signal n ty \<in> set daemon_vtable)"
  by (cases sig) (simp_all add: daemon_vtable_def)

lemma replies_declared:
  assumes "method_entry m daemon_vtable = Some (h, res)"
  shows "reply_type (snd (snd (run_handler h status now sm b))) \<in> {Some res} \<union> (if m = ''Start'' then {None} else {})"
  using assms
  by (auto simp: daemon_vtable_def method_start_def method_halt_def method_diagnostics_def Let_def
      split: if_splits option.splits sum.splits prod.splits)

lemma properties_declared:
  assumes "property_entry m daemon_vtable = Some (h, ty)"
  shows "run_handler h status now sm b = (sm, b, prop_current_state sm) \<and> reply_type (prop_current_state sm) = Some ty"
  using assms by (auto simp: daemon_vtable_def prop_current_state_def split: if_splits)

text \<open>
  The worker returns once a read of the flag gives true, handles one message per earlier read, and waits
  exactly after those that found none.
\<close>

lemma worker_loop_returns:
  "worker_loop process stops b = (b', acts, returned) \<Longrightarrow>
     (returned \<longleftrightarrow> True \<in> set stops) \<and>
     length (filter (\<lambda>a. a \<noteq> Waited_us 10000) acts) = length (takeWhile Not stops) \<and>
     b' = ((snd \<circ> process) ^^ length (takeWhile Not stops)) b"
proof (induction stops arbitrary: b b' acts returned)
  case (Cons stop stops)
  obtain rc b1 where p: "process b = (rc, b1)" by (cases "process b")
  obtain b2 acts2 ret2 where w: "worker_loop process stops b1 = (b2, acts2, ret2)" by (cases "worker_loop process stops b1")
  show ?case using Cons.prems Cons.IH [OF w] p w
    by (auto simp: funpow_Suc_right simp del: funpow.simps(2) split: if_splits)
qed simp

text \<open>
  A bus that was started completely is closed again by stop, with its worker joined. A start that fails
  after the bus was opened reports failure but leaves the bus open, and stop does not close it.\<close>

lemma bus_start_stop:
  "\<exists>b started. bus_start r1 r2 r3 (bus_new now) = Some (b, started) \<and>
     (if started
      then 0 \<le> r1 \<and> 0 \<le> r2 \<and> 0 \<le> r3 \<and> worker_joinable b \<and> bus_open b \<and> \<not> worker_stop b \<and>
        (let c = bus_destroy b in \<not> bus_open c \<and> \<not> slot_open c \<and> \<not> bus_running c \<and> \<not> worker_joinable c \<and> worker_stop c)
      else (r1 < 0 \<or> r2 < 0 \<or> r3 < 0) \<and> bus_destroy b = b \<and> bus_open b = (0 \<le> r1) \<and> \<not> worker_joinable b)"
  by (auto simp: bus_start_def bus_new_def bus_stop_def bus_destroy_def Let_def)

end
