(* ===== verification/Daemon_Main.thy ===== *)
theory Daemon_Main
  imports Daemon_Bus Telemetry_Receiver
begin

text \<open>
  The daemon's \<^verbatim>\<open>main\<close>: it wires the state manager to the bus, starts the producer thread, and drains the
  receiver into the data processor, raising a fault for every metric with its alarm flag set. The
  daemon is a state and the operations of its three threads on it: an iteration of the producer, an
  iteration of the main loop, and the bus methods. Sequences of these operations are runs in which no two of them
  overlap; what happens when they do is in \<open>Spsc_Concurrent\<close> for the queue and in \<open>State_Manager_Concurrent\<close> for the
  state machine and its announcements, whose order is then not kept.
\<close>

subsection \<open>State and set-up\<close>

datatype source = Src_file file_source | Src_sim simulated_source

record daemon =
  d_sm :: "daemon_bus state_manager"
  d_bus :: daemon_bus
  d_source :: source
  d_rx :: telemetry_receiver
  d_proc :: data_processor
  last_watchdog :: int
  notified :: "string list"

text \<open>
  \<open>telemetry_path\<close> is what the file named by \<^verbatim>\<open>TELEMETRY_PATH\<close> holds, if the variable is set. The result is
  the exit status when the bus cannot be set up, or the daemon that has reported to be ready; none if the
  program is terminated, as it is by a worker thread that is assigned over.
\<close>

definition main_setup ::
  "string list option option \<Rightarrow> int \<times> int \<times> int \<Rightarrow> int \<Rightarrow> (int + daemon) option" where
  "main_setup telemetry_path results now =
     (let sm = sm_new;
          bus = bus_new now;
          sm = setStateChangedCallback sm (Some emitStateChanged);
          sm = setAlarmCallback sm (Some emitAlarmRaised)
      in case results of
        (r_open, r_vtable, r_name) \<Rightarrow>
          (case bus_start r_open r_vtable r_name bus of
             None \<Rightarrow> None
           | Some (bus, started) \<Rightarrow>
               if \<not> started then Some (Inl 1)
               else
                 let src = (case telemetry_path of
                       Some path \<Rightarrow> Src_file (fs_new ''sensor0'' path True)
                     | None \<Rightarrow> Src_sim (ss_new ''sensor0'' (Fin 50) (Fin 10) (Fin (5 / 100)) (Fin 4)))
                 in Some (Inr \<lparr>d_sm = sm, d_bus = bus, d_source = src, d_rx = rx_new,
                      d_proc = dp_new 10 (Fin 80) (Fin 20) 3, last_watchdog = now, notified = [''READY=1'']\<rparr>)))"

subsection \<open>The threads\<close>

text \<open>What the environment gives to a read: the file as it is now, the random draws, the time.\<close>

definition source_read ::
  "string list option \<Rightarrow> double \<times> double \<Rightarrow> int \<Rightarrow> source \<Rightarrow> source \<times> telemetry_frame option" where
  "source_read path draws now src =
     (case src of
        Src_file fs \<Rightarrow> (case fs_read path now fs of (fs, fr) \<Rightarrow> (Src_file fs, fr))
      | Src_sim ss \<Rightarrow> (case ss_read draws now ss of (ss, fr) \<Rightarrow> (Src_sim ss, fr)))"

definition producer_iteration ::
  "string list option \<Rightarrow> double \<times> double \<Rightarrow> int \<Rightarrow> daemon \<Rightarrow> daemon option" where
  "producer_iteration path draws now d =
     (case source_read path draws now (d_source d) of
        (src, fr) \<Rightarrow>
          (case fr of
             None \<Rightarrow> Some (d\<lparr>d_source := src\<rparr>)
           | Some frame \<Rightarrow> do {
               (rx, _) \<leftarrow> rx_push (d_rx d) frame;
               Some (d\<lparr>d_source := src, d_rx := rx\<rparr>)
             }))"

definition consume ::
  "data_processor \<times> daemon_bus state_manager \<times> daemon_bus \<Rightarrow> telemetry_frame \<Rightarrow>
   (data_processor \<times> daemon_bus state_manager \<times> daemon_bus) option" where
  "consume psb frame =
     (case psb of
        (proc, sm, bus) \<Rightarrow> do {
          (proc, metric) \<leftarrow> dp_process proc frame;
          Some (proc,
            if alarm_flag metric
            then sm_fault (metric_sensor_id metric) (filtered_value metric) (Fin 80) sm bus
            else (sm, bus))
        })"

definition main_iteration :: "int \<Rightarrow> daemon \<Rightarrow> daemon option" where
  "main_iteration now d = do {
     (rx, proc, sm, bus) \<leftarrow> drain rx_pop consume (d_rx d) (d_proc d, d_sm d, d_bus d);
     let d = d\<lparr>d_rx := rx, d_proc := proc, d_sm := sm, d_bus := bus\<rparr>;
     Some (if 5000000000 \<le> now - last_watchdog d
           then d\<lparr>notified := notified d @ [''WATCHDOG=1''], last_watchdog := now\<rparr>
           else d)
   }"

text \<open>
  A method call from the bus, handled by the bus's worker. The state manager outlives the bus, so the weak
  pointer is never empty. An unknown method is answered by the library.
\<close>

definition on_bus_call :: "string \<Rightarrow> string list \<Rightarrow> int \<Rightarrow> daemon \<Rightarrow> daemon \<times> bus_reply option" where
  "on_bus_call m status now d =
     (case bus_call m status now (Some (d_sm d)) (d_bus d) of
        None \<Rightarrow> (d, None)
      | Some (sm, bus, r) \<Rightarrow> (d\<lparr>d_sm := (case sm of Some sm \<Rightarrow> sm | None \<Rightarrow> d_sm d), d_bus := bus\<rparr>, Some r))"

definition main_teardown :: "daemon \<Rightarrow> daemon" where
  "main_teardown d =
     (let d = d\<lparr>notified := notified d @ [''STOPPING=1'']\<rparr>;
          (sm, bus) = sm_shutdown (d_sm d) (d_bus d);
          sm = setStateChangedCallback sm None;
          sm = setAlarmCallback sm None
      in d\<lparr>d_sm := sm, d_bus := bus_stop bus\<rparr>)"

datatype daemon_event =
    Produce "string list option" "double \<times> double" int
  | Iterate int
  | Bus_call string "string list" int

text \<open>An operation of one of the threads that no other overlaps.\<close>

fun daemon_step :: "daemon \<Rightarrow> daemon_event \<Rightarrow> daemon option" where
  "daemon_step d (Produce path draws now) = producer_iteration path draws now d"
| "daemon_step d (Iterate now) = main_iteration now d"
| "daemon_step d (Bus_call m status now) = Some (fst (on_bus_call m status now d))"

text \<open>
  The program: the set-up, what the threads do, one after the other, until the signal to end, and the shutdown. The
  exit status comes with the daemon as it is left.
\<close>

definition daemon_program ::
  "string list option option \<Rightarrow> int \<times> int \<times> int \<Rightarrow> int \<Rightarrow> daemon_event list \<Rightarrow> (int \<times> daemon option) option" where
  "daemon_program telemetry_path results now es =
     (case main_setup telemetry_path results now of
        None \<Rightarrow> None
      | Some (Inl rc) \<Rightarrow> Some (rc, None)
      | Some (Inr d) \<Rightarrow> do {
          d \<leftarrow> fold_opt daemon_step d es;
          Some (0, Some (main_teardown d))
        })"

subsection \<open>What a client of the bus sees\<close>

text \<open>
  The signals of a daemon in state \<open>s\<close>, read as the documented machine: every change starts from the state
  the last one left, and entering FAULT is followed by the alarm of \<^verbatim>\<open>sensor0\<close> with threshold 80. The
  result is the state after the last signal.
\<close>

fun signals_from :: "daemon_state \<Rightarrow> bus_signal list \<Rightarrow> daemon_state option" where
  "signals_from s [] = Some s"
| "signals_from s (AlarmRaised sid v thr # sigs) = None"
| "signals_from s [StateChanged n p] =
     (if p \<noteq> stateToString s then None
      else if n = ''RUNNING'' \<and> (s = IDLE \<or> s = FAULT) then Some RUNNING
      else if n = ''IDLE'' \<and> s \<noteq> SHUTDOWN then Some IDLE
      else if n = ''SHUTDOWN'' then Some SHUTDOWN else None)"
| "signals_from s (StateChanged n p # x # sigs) =
     (if p \<noteq> stateToString s then None
      else if n = ''RUNNING'' \<and> (s = IDLE \<or> s = FAULT) then signals_from RUNNING (x # sigs)
      else if n = ''IDLE'' \<and> s \<noteq> SHUTDOWN then signals_from IDLE (x # sigs)
      else if n = ''SHUTDOWN'' then signals_from SHUTDOWN (x # sigs)
      else if n = ''FAULT'' \<and> s = RUNNING
      then (case x of
              AlarmRaised sid v thr \<Rightarrow> if sid = ''sensor0'' \<and> thr = Fin 80 then signals_from FAULT sigs else None
            | StateChanged _ _ \<Rightarrow> None)
      else None)"

definition source_name :: "source \<Rightarrow> string" where
  "source_name src = (case src of Src_file fs \<Rightarrow> fs_sensor_id fs | Src_sim ss \<Rightarrow> ss_sensor_id ss)"

definition daemon_inv :: "daemon \<Rightarrow> bool" where
  "daemon_inv d \<longleftrightarrow>
     rx_inv (d_rx d) \<and> source_name (d_source d) = ''sensor0'' \<and>
     (\<forall>fr \<in> set (rx_contents (d_rx d)). sensor_id fr = ''sensor0'') \<and>
     state_changed_cb (d_sm d) = Some emitStateChanged \<and> alarm_cb (d_sm d) = Some emitAlarmRaised \<and>
     bus_open (d_bus d) \<and> bus_running (d_bus d) \<and> processed_count (d_bus d) = 0 \<and>
     signals_from IDLE (emitted (d_bus d)) = Some (sm_state (d_sm d))"

subsection \<open>The invariant\<close>

lemma signals_from_append:
  "signals_from s xs = Some t \<Longrightarrow> signals_from s (xs @ ys) = signals_from t ys"
proof (induction s xs arbitrary: t rule: signals_from.induct)
  case (3 s n p)
  then show ?case by (cases ys) (auto split: if_splits)
next
  case (4 s n p x sigs)
  then show ?case by (auto split: if_splits bus_signal.splits)
qed auto

text \<open>The part of the invariant that the state manager and the bus share.\<close>

definition wired :: "daemon_bus state_manager \<Rightarrow> daemon_bus \<Rightarrow> bool" where
  "wired sm bus \<longleftrightarrow>
     state_changed_cb sm = Some emitStateChanged \<and> alarm_cb sm = Some emitAlarmRaised \<and>
     bus_open bus \<and> bus_running bus \<and> processed_count bus = 0 \<and> signals_from IDLE (emitted bus) = Some (sm_state sm)"

lemma wired_start: "wired sm bus \<Longrightarrow> sm_start sm bus = Inr (sm', bus') \<Longrightarrow> wired sm' bus'"
  by (cases "sm_state sm")
    (auto simp: wired_def sm_start_def Let_def call_state_cb_def emitStateChanged_def signals_from_append)

lemma wired_halt: "wired sm bus \<Longrightarrow> sm_halt sm bus = (sm', bus') \<Longrightarrow> wired sm' bus'"
  by (cases "sm_state sm")
    (auto simp: wired_def sm_halt_def sm_transition_def Let_def call_state_cb_def emitStateChanged_def signals_from_append)

lemma wired_fault: "wired sm bus \<Longrightarrow> sm_fault ''sensor0'' v (Fin 80) sm bus = (sm', bus') \<Longrightarrow> wired sm' bus'"
  by (cases "sm_state sm")
    (auto simp: wired_def sm_fault_def Let_def call_state_cb_def call_alarm_cb_def emitStateChanged_def
      emitAlarmRaised_def signals_from_append)

lemma dp_process_id: "dp_process p fr = Some (p', m) \<Longrightarrow> metric_sensor_id m = sensor_id fr"
  by (auto simp: dp_process_Some_iff)

lemma wired_consume:
  assumes "wired sm bus" "sensor_id fr = ''sensor0''" "consume (p, sm, bus) fr = Some (p', sm', bus')"
  shows "wired sm' bus'"
  using assms wired_fault [OF assms(1)]
  by (auto simp: consume_def bind_eq_Some_conv dp_process_id split: if_splits)

lemma wired_consume_all:
  "wired sm bus \<Longrightarrow> (\<forall>fr \<in> set frs. sensor_id fr = ''sensor0'') \<Longrightarrow>
   fold_opt consume (p, sm, bus) frs = Some (p', sm', bus') \<Longrightarrow> wired sm' bus'"
proof (induction frs arbitrary: p sm bus)
  case (Cons fr frs)
  obtain p1 sm1 bus1 where c: "consume (p, sm, bus) fr = Some (p1, sm1, bus1)"
    using Cons.prems(3) by (cases "consume (p, sm, bus) fr") auto
  with Cons wired_consume [OF Cons.prems(1) _ c] show ?case by simp
qed simp

lemma source_read_frame:
  assumes "source_read path draws now src = (src', fr)"
  shows "source_name src' = source_name src \<and> (\<forall>f. fr = Some f \<longrightarrow> sensor_id f = source_name src)"
proof (cases src)
  case (Src_file fs)
  then show ?thesis
    using assms file_src.keeps_name [of path now fs] file_src.frame_name [of path now fs]
    by (cases "fs_read path now fs") (auto simp: source_read_def source_name_def)
next
  case (Src_sim ss)
  then show ?thesis
    using assms sim_src.keeps_name [of draws now ss] sim_src.frame_name [of draws now ss]
    by (cases "ss_read draws now ss") (auto simp: source_read_def source_name_def)
qed

lemma daemon_inv_wired: "daemon_inv d \<longleftrightarrow>
     rx_inv (d_rx d) \<and> source_name (d_source d) = ''sensor0'' \<and>
     (\<forall>fr \<in> set (rx_contents (d_rx d)). sensor_id fr = ''sensor0'') \<and> wired (d_sm d) (d_bus d)"
  by (auto simp: daemon_inv_def wired_def)

lemma main_iteration_drains:
  assumes "rx_inv (d_rx d)"
  shows "\<exists>rx. rx_inv rx \<and> rx_contents rx = [] \<and>
    main_iteration now d = (case fold_opt consume (d_proc d, d_sm d, d_bus d) (rx_contents (d_rx d)) of
      None \<Rightarrow> None
    | Some (proc, sm, bus) \<Rightarrow>
        (let d = d\<lparr>d_rx := rx, d_proc := proc, d_sm := sm, d_bus := bus\<rparr>
         in Some (if 5000000000 \<le> now - last_watchdog d
             then d\<lparr>notified := notified d @ [''WATCHDOG=1''], last_watchdog := now\<rparr> else d)))"
proof -
  obtain rx where "rx_inv rx" "rx_contents rx = []"
    "drain rx_pop consume (d_rx d) (d_proc d, d_sm d, d_bus d) =
      map_option (\<lambda>s'. (rx, s')) (fold_opt consume (d_proc d, d_sm d, d_bus d) (rx_contents (d_rx d)))"
    using rxq.drain_contents [OF assms, of consume] by blast
  then show ?thesis
    by (intro exI [of _ rx]) (auto simp: main_iteration_def Let_def split: option.split prod.split)
qed

lemma producer_inv:
  assumes "daemon_inv d" "producer_iteration path draws now d = Some d'"
  shows "daemon_inv d'"
proof -
  obtain src fr where r: "source_read path draws now (d_source d) = (src, fr)"
    by (cases "source_read path draws now (d_source d)")
  note n = source_read_frame [OF r]
  show ?thesis
  proof (cases fr)
    case None
    then show ?thesis using assms n by (auto simp: producer_iteration_def r daemon_inv_wired)
  next
    case (Some f)
    have i: "rx_inv (d_rx d)" using assms(1) by (simp add: daemon_inv_def)
    obtain rx b where p: "rx_push (d_rx d) f = Some (rx, b)" "rx_inv rx"
      "set (rx_contents rx) \<subseteq> insert f (set (rx_contents (d_rx d)))"
      using rxq.push_room [OF i, of f] rxq.push_full [OF i, of f]
      by (cases "length (rx_contents (d_rx d)) < CAPACITY - 1") fastforce+
    then have "d' = d\<lparr>d_source := src, d_rx := rx\<rparr>"
      using assms(2) by (simp add: producer_iteration_def r Some)
    then show ?thesis using assms(1) n p(2,3) Some by (auto simp: daemon_inv_wired)
  qed
qed

lemma iteration_inv:
  assumes "daemon_inv d" "main_iteration now d = Some d'"
  shows "daemon_inv d'"
proof -
  obtain rx where rx: "rx_inv rx" "rx_contents rx = []" and m: "main_iteration now d =
     (case fold_opt consume (d_proc d, d_sm d, d_bus d) (rx_contents (d_rx d)) of
      None \<Rightarrow> None
    | Some (proc, sm, bus) \<Rightarrow>
        (let d = d\<lparr>d_rx := rx, d_proc := proc, d_sm := sm, d_bus := bus\<rparr>
         in Some (if 5000000000 \<le> now - last_watchdog d
             then d\<lparr>notified := notified d @ [''WATCHDOG=1''], last_watchdog := now\<rparr> else d)))"
    using main_iteration_drains [of d now] assms(1) by (auto simp: daemon_inv_def)
  obtain proc sm bus where f: "fold_opt consume (d_proc d, d_sm d, d_bus d) (rx_contents (d_rx d)) = Some (proc, sm, bus)"
    using assms(2) m by (cases "fold_opt consume (d_proc d, d_sm d, d_bus d) (rx_contents (d_rx d))") auto
  have "wired sm bus" using wired_consume_all [OF _ _ f] assms(1) by (simp add: daemon_inv_wired)
  then show ?thesis
    using assms rx f m by (auto simp: daemon_inv_wired Let_def split: if_splits)
qed

lemma on_bus_call_inv:
  assumes "daemon_inv d"
  shows "daemon_inv (fst (on_bus_call m status now d))"
proof (cases "method_entry m daemon_vtable")
  case (Some hr)
  obtain h res where hr: "hr = (h, res)" by (cases hr)
  have call: "on_bus_call m status now d =
      (case run_handler h status now (Some (d_sm d)) (d_bus d) of
         (sm, bus, r) \<Rightarrow> (d\<lparr>d_sm := (case sm of Some sm \<Rightarrow> sm | None \<Rightarrow> d_sm d), d_bus := bus\<rparr>, Some r))"
    by (simp add: on_bus_call_def bus_call_def Some hr)
  show ?thesis
  proof (cases h)
    case Method_start
    show ?thesis using assms wired_start [of "d_sm d" "d_bus d"]
      by (auto simp: call Method_start method_start_def daemon_inv_wired split: sum.splits)
  next
    case Method_halt
    show ?thesis using assms wired_halt [of "d_sm d" "d_bus d"]
      by (auto simp: call Method_halt method_halt_def daemon_inv_wired split: prod.splits)
  qed (use assms in \<open>simp_all add: call\<close>)
qed (use assms in \<open>simp add: on_bus_call_def bus_call_def\<close>)

lemma daemon_step_inv: "daemon_inv d \<Longrightarrow> daemon_step d e = Some d' \<Longrightarrow> daemon_inv d'"
proof (cases e)
  case (Produce path draws now)
  assume "daemon_inv d" "daemon_step d e = Some d'"
  then show ?thesis using producer_inv by (simp add: Produce)
next
  case (Iterate now)
  assume "daemon_inv d" "daemon_step d e = Some d'"
  then show ?thesis using iteration_inv by (simp add: Iterate)
next
  case (Bus_call m status now)
  assume "daemon_inv d" "daemon_step d e = Some d'"
  then show ?thesis using on_bus_call_inv by (auto simp: Bus_call)
qed

lemma setup_inv: "main_setup path rs now = Some (Inr d) \<Longrightarrow> daemon_inv d"
  by (cases rs)
    (auto simp: main_setup_def daemon_inv_def bus_start_def bus_new_def Let_def rxq.invar_new rxq.contents_new
      setStateChangedCallback_def setAlarmCallback_def sm_new_def source_name_def fs_new_def fs_reopen_def ss_new_def
      split: if_splits option.splits)

lemma fold_inv: "daemon_inv d \<Longrightarrow> fold_opt daemon_step d es = Some d' \<Longrightarrow> daemon_inv d'"
  by (rule fold_opt_invariant [OF daemon_step_inv])

text \<open>One iteration of the main loop: the metrics of the waiting frames, in order.\<close>

definition raise_all ::
  "processed_metric list \<Rightarrow> daemon_bus state_manager \<times> daemon_bus \<Rightarrow> daemon_bus state_manager \<times> daemon_bus" where
  "raise_all ms sb = fold (\<lambda>m (sm, bus).
     if alarm_flag m then sm_fault (metric_sensor_id m) (filtered_value m) (Fin 80) sm bus else (sm, bus)) ms sb"

lemma raise_all_Cons: "raise_all (m # ms) sb = raise_all ms (raise_all [m] sb)"
  by (simp add: raise_all_def)

lemma consume_step: "dp_process p fr = Some (p', m) \<Longrightarrow> consume (p, sb) fr = Some (p', raise_all [m] sb)"
  by (cases sb) (simp add: consume_def raise_all_def)

lemma consume_all:
  "run_op dp_process p frs = Some (p', ms) \<Longrightarrow> fold_opt consume (p, sb) frs = Some (p', raise_all ms sb)"
proof (induction frs arbitrary: p sb ms)
  case (Cons fr frs)
  then obtain p1 m ms' where s: "dp_process p fr = Some (p1, m)" "run_op dp_process p1 frs = Some (p', ms')" "ms = m # ms'"
    by (auto split: option.splits)
  then show ?case using Cons.IH [OF s(2)] by (simp add: consume_step raise_all_Cons [of m ms'])
qed (simp add: raise_all_def)

lemma raise_all_idle: "sm_state sm \<noteq> RUNNING \<Longrightarrow> raise_all ms (sm, bus) = (sm, bus)"
  by (induction ms) (auto simp: raise_all_def sm_fault_def)

lemma raise_all_running:
  assumes "sm_state sm = RUNNING"
  shows "raise_all ms (sm, bus) =
    (case find alarm_flag ms of None \<Rightarrow> (sm, bus)
     | Some m \<Rightarrow> sm_fault (metric_sensor_id m) (filtered_value m) (Fin 80) sm bus)"
proof (induction ms)
  case (Cons m ms)
  have "sm_state (fst (sm_fault i v t sm bus)) \<noteq> RUNNING" for i v t
    using assms by (simp add: sm_fault_def Let_def)
  then have "raise_all ms (sm_fault i v t sm bus) = sm_fault i v t sm bus" for i v t
    using raise_all_idle by (metis prod.collapse)
  then show ?case using Cons by (simp add: raise_all_def)
qed (simp add: raise_all_def)


lemma find_map: "find P (map g xs) = map_option g (find (\<lambda>x. P (g x)) xs)"
  by (induction xs) auto

lemma fault_effect:
  assumes "wired sm bus" "sm_state sm = RUNNING"
  shows "sm_state (fst (sm_fault i v t sm bus)) = FAULT \<and>
    emitted (snd (sm_fault i v t sm bus)) = emitted bus @ [StateChanged ''FAULT'' ''RUNNING'', AlarmRaised i v t]"
  using assms
  by (simp add: wired_def sm_fault_def Let_def call_state_cb_def call_alarm_cb_def emitStateChanged_def emitAlarmRaised_def)

lemma last_take: "0 < i \<Longrightarrow> i \<le> length xs \<Longrightarrow> last (take i xs) = xs ! (i - 1)"
  by (subst last_conv_nth) (auto simp: min_absorb2)

lemma iteration_result:
  assumes "rx_inv (d_rx d)" "run_op dp_process (d_proc d) (rx_contents (d_rx d)) = Some (p, ms)"
  shows "\<exists>d'. main_iteration now d = Some d' \<and> rx_contents (d_rx d') = [] \<and>
    (d_sm d', d_bus d') = raise_all ms (d_sm d, d_bus d)"
proof -
  obtain sm bus where r: "raise_all ms (d_sm d, d_bus d) = (sm, bus)" by (cases "raise_all ms (d_sm d, d_bus d)")
  then show ?thesis
    using main_iteration_drains [OF assms(1), of now] consume_all [OF assms(2), of "(d_sm d, d_bus d)"]
    by (auto simp: Let_def)
qed

text \<open>A running daemon for the examples, with a given receiver and processor.\<close>

definition example_daemon :: "telemetry_receiver \<Rightarrow> data_processor \<Rightarrow> daemon" where
  "example_daemon rx p =
     \<lparr>d_sm = \<lparr>sm_state = RUNNING, state_changed_cb = Some emitStateChanged, alarm_cb = Some emitAlarmRaised\<rparr>,
      d_bus = (bus_new 0)\<lparr>bus_open := True, bus_running := True, emitted := [StateChanged ''RUNNING'' ''IDLE'']\<rparr>,
      d_source = Src_sim (ss_new ''sensor0'' (Fin 50) (Fin 10) (Fin 0) (Fin 4)), d_rx = rx, d_proc = p,
      last_watchdog = 0, notified = []\<rparr>"

lemma example_daemon_wired: "wired (d_sm (example_daemon rx p)) (d_bus (example_daemon rx p))"
  by (simp add: example_daemon_def wired_def bus_new_def)

subsection \<open>Properties\<close>

text \<open>
  C32. One iteration of the main loop, in a daemon that is RUNNING and has processed the history \<open>hist\<close> of
  finite samples, empties the receiver and processes the waiting frames in order. If one of them completes
  a run of three raw samples above 80 or below 20 the daemon enters FAULT, and the bus sends one state
  change and one alarm, for the first such frame and with its sliding mean; otherwise it stays RUNNING and
  nothing is sent.\<close>

theorem main_iteration_raises_fault:
  assumes "rx_inv (d_rx d)" "sm_state (d_sm d) = RUNNING" "wired (d_sm d) (d_bus d)"
    and "run_op dp_process (dp_new 10 (Fin 80) (Fin 20) 3) hist = Some (d_proc d, ms0)"
    and "list_all (\<lambda>fr. is_finite (frame_value fr)) (hist @ rx_contents (d_rx d))"
    and "run_fits (Fin 80) (Fin 20) (map frame_value (hist @ rx_contents (d_rx d)))"
  shows "\<exists>d'. main_iteration now d = Some d' \<and> rx_contents (d_rx d') = [] \<and>
    (case find (\<lambda>i. 3 \<le> trailing_run (Fin 80) (Fin 20) (map frame_value (take i (hist @ rx_contents (d_rx d)))))
            [Suc (length hist)..<Suc (length hist + length (rx_contents (d_rx d)))] of
       None \<Rightarrow> sm_state (d_sm d') = RUNNING \<and> emitted (d_bus d') = emitted (d_bus d)
     | Some i \<Rightarrow> sm_state (d_sm d') = FAULT \<and>
         emitted (d_bus d') = emitted (d_bus d) @ [StateChanged ''FAULT'' ''RUNNING'',
           AlarmRaised (sensor_id ((hist @ rx_contents (d_rx d)) ! (i - 1)))
             (Fin (mean (last_n 10 (map (\<lambda>fr. fin_of (frame_value fr)) (take i (hist @ rx_contents (d_rx d))))))) (Fin 80)])"
proof -
  let ?xs = "rx_contents (d_rx d)" and ?n = "length hist"
  let ?all = "hist @ ?xs"
  let ?L = "[Suc ?n..<Suc (?n + length ?xs)]"
  let ?g = "\<lambda>i. metric_at 10 (Fin 80) (Fin 20) 3 (take i ?all)"
  let ?f = "find (\<lambda>i. 3 \<le> trailing_run (Fin 80) (Fin 20) (map frame_value (take i ?all))) ?L"
  obtain p where p: "run_op dp_process (d_proc d) ?xs = Some (p, map ?g ?L)"
    using metrics_of_waiting [OF assms(4) _ assms(5,6)] by auto
  have a: "find alarm_flag (map ?g ?L) = map_option ?g ?f"
    by (simp add: find_map metric_at_def)
  obtain d' where d': "main_iteration now d = Some d'" "rx_contents (d_rx d') = []"
    "(d_sm d', d_bus d') = raise_all (map ?g ?L) (d_sm d, d_bus d)"
    using iteration_result [OF assms(1) p] by blast
  have r: "(d_sm d', d_bus d') = (case ?f of None \<Rightarrow> (d_sm d, d_bus d)
     | Some i \<Rightarrow> sm_fault (metric_sensor_id (?g i)) (filtered_value (?g i)) (Fin 80) (d_sm d) (d_bus d))"
    unfolding d'(3) raise_all_running [OF assms(2)] a by (simp split: option.split)
  have i: "last (take i ?all) = ?all ! (i - 1)" if "?f = Some i" for i
    using that by (intro last_take) (auto simp: find_Some_iff simp del: upt_Suc)
  show ?thesis
  proof (cases ?f)
    case None
    then show ?thesis using d'(1,2) r assms(2) by auto
  next
    case (Some i)
    then show ?thesis
      using d'(1,2) r fault_effect [OF assms(3,2)] i [OF Some]
      by (simp add: metric_at_def prod_eq_iff)
  qed
qed

theorem main_iteration_raises_fault_witness:
  "\<exists>rx p d'. rx_contents rx = [\<lparr>sensor_id = ''sensor0'', frame_value = Fin 90, timestamp = 3\<rparr>] \<and>
    main_iteration 0 (example_daemon rx p) = Some d' \<and> sm_state (d_sm d') = FAULT"
proof -
  let ?fr = "\<lambda>t. \<lparr>sensor_id = ''sensor0'', frame_value = Fin 90, timestamp = t\<rparr>"
  let ?hist = "[?fr 1, ?fr 2]"
  obtain rx where rx: "rx_inv rx" "rx_contents rx = [?fr 3]"
    using rxq.push_room [OF rx_inv_new, of "?fr 3"] by (auto simp: rxq.contents_new CAPACITY_def)
  have fits: "run_fits (Fin 80) (Fin 20) xs" if "length xs \<le> 3" for xs
    using that by (intro run_fits_short) (simp add: INT_MAX_def)
  obtain p ms0 where p: "run_op dp_process (dp_new 10 (Fin 80) (Fin 20) 3) ?hist = Some (p, ms0)"
    using dp_run_metrics [of 10 ?hist "Fin 80" "Fin 20" 3] fits by auto
  let ?d = "example_daemon rx p"
  have d: "d_rx ?d = rx" "d_proc ?d = p" "sm_state (d_sm ?d) = RUNNING" by (simp_all add: example_daemon_def)
  have f: "find (\<lambda>i. 3 \<le> trailing_run (Fin 80) (Fin 20) (map frame_value (take i (?hist @ rx_contents (d_rx ?d)))))
      [Suc (length ?hist)..<Suc (length ?hist + length (rx_contents (d_rx ?d)))] = Some 3"
    unfolding d rx(2) by (simp add: upt_rec trailing_run_def out_of_range_def)
  have "\<exists>d'. main_iteration 0 ?d = Some d' \<and> sm_state (d_sm d') = FAULT"
    using main_iteration_raises_fault [of ?d ?hist ms0 0, unfolded f] rx p fits example_daemon_wired [of rx p] d
    by (auto simp del: length_rx_contents)
  then show ?thesis using rx(2) by blast
qed

text \<open>
  As long as no two operations of the threads overlap, the signals handed to the bus form a run of the documented
  state machine from IDLE to the daemon's current state, and every entry to FAULT is followed by exactly one alarm,
  which names \<^verbatim>\<open>sensor0\<close> and the threshold 80.\<close>

lemma serial_signals_follow_state_machine:
  assumes "main_setup path rs now = Some (Inr d0)" "fold_opt daemon_step d0 es = Some d"
  shows "signals_from IDLE (emitted (d_bus d)) = Some (sm_state (d_sm d))"
  using fold_inv [OF setup_inv [OF assms(1)] assms(2)] by (simp add: daemon_inv_def)

text \<open>
  A daemon whose operations did not overlap leaves its machine in SHUTDOWN, which was the last thing it signalled, its bus closed with
  the worker joined, and no callback behind.\<close>

lemma daemon_program_ends:
  assumes "daemon_program path rs now es = Some (rc, Some d)"
  shows "rc = 0 \<and> sm_state (d_sm d) = SHUTDOWN \<and> signals_from IDLE (emitted (d_bus d)) = Some SHUTDOWN \<and>
    \<not> bus_open (d_bus d) \<and> \<not> bus_running (d_bus d) \<and> \<not> worker_joinable (d_bus d) \<and>
    state_changed_cb (d_sm d) = None \<and> alarm_cb (d_sm d) = None \<and> last (notified d) = ''STOPPING=1''"
proof -
  obtain d0 d1 where d: "main_setup path rs now = Some (Inr d0)" "fold_opt daemon_step d0 es = Some d1"
      "rc = 0" "d = main_teardown d1"
    using assms by (auto simp: daemon_program_def bind_eq_Some_conv split: option.splits sum.splits)
  have "wired (d_sm d1) (d_bus d1)" using fold_inv [OF setup_inv [OF d(1)] d(2)] by (simp add: daemon_inv_wired)
  then show ?thesis
    by (auto simp: d main_teardown_def wired_def sm_shutdown_def sm_transition_def call_state_cb_def emitStateChanged_def
        signals_from_append setStateChangedCallback_def setAlarmCallback_def bus_stop_def Let_def)
qed

text \<open>
  \<^verbatim>\<open>RunDiagnostics\<close> reports zero processed frames whatever the daemon has done: nothing ever adds to the
  counter.\<close>

lemma diagnostics_report_zero_frames:
  assumes "main_setup path rs now = Some (Inr d0)" "fold_opt daemon_step d0 es = Some d"
  shows "\<exists>rss st up. method_diagnostics status t (Some (d_sm d)) (d_bus d) = Reply_diag rss 0 st up"
  using fold_inv [OF setup_inv [OF assms(1)] assms(2)] by (simp add: daemon_inv_def method_diagnostics_def Let_def)

end
