(* ===== verification/Telemetry_Node.thy ===== *)
theory Telemetry_Node
  imports State_Manager Telemetry_Receiver Telemetry_Sources
begin

text \<open>
  \<^verbatim>\<open>TelemetryNode\<close>, a worker of the distributed system: it simulates a sensor, processes the samples, drives
  its own state machine and keeps the latest 256 results for streaming. The world of the state manager's
  callbacks is the flag \<^verbatim>\<open>alarm_active_\<close>. The gRPC server, the random draws and the clocks are inputs.
\<close>

subsection \<open>State\<close>

record processed_snapshot =
  snap_node_id :: string
  raw_value :: double
  snap_filtered :: double
  alarm_active :: bool
  fsm_state :: string
  timestamp_ms :: int

definition STREAM_QUEUE_CAP :: nat where
  "STREAM_QUEUE_CAP = 256"

record telemetry_node =
  node_id :: string
  fsm :: "bool state_manager"
  alarm_flag_now :: bool
  receiver :: telemetry_receiver
  processor :: data_processor
  grpc_server :: bool
  actual_port :: int
  running :: bool
  node_count :: u64
  last_raw :: double
  last_filtered :: double
  stream_queue :: "processed_snapshot list"
  producer_joinable :: bool

definition node_new :: "string \<Rightarrow> telemetry_node" where
  "node_new nid =
     (let fsm = sm_new;
          fsm = setAlarmCallback fsm (Some (\<lambda>sid v thr alarm. True));
          fsm = setStateChangedCallback fsm (Some (\<lambda>nxt prev alarm. if nxt \<noteq> FAULT then False else alarm))
      in \<lparr>node_id = nid, fsm = fsm, alarm_flag_now = False, receiver = rx_new, processor = dp_default,
          grpc_server = False, actual_port = 0, running = False, node_count = 0, last_raw = Fin 0,
          last_filtered = Fin 0, stream_queue = [], producer_joinable = False\<rparr>)"

subsection \<open>Life cycle\<close>

text \<open>
  \<open>built\<close> is the result of building the server (whether one exists, and its port). The first component of
  the result is the message of the exception that left the call, if any.
\<close>

definition node_start :: "bool \<times> int \<Rightarrow> telemetry_node \<Rightarrow> string option \<times> telemetry_node" where
  "node_start built n =
     (if running n then (None, n)
      else
        let n = n\<lparr>running := True\<rparr>
        in case sm_start (fsm n) (alarm_flag_now n) of
             Inl e \<Rightarrow> (Some e, n)
           | Inr (sm, alarm) \<Rightarrow>
               (None, n\<lparr>fsm := sm, alarm_flag_now := alarm, producer_joinable := True,
                  grpc_server := fst built, actual_port := snd built\<rparr>))"

definition node_stop :: "telemetry_node \<Rightarrow> telemetry_node" where
  "node_stop n =
     (if \<not> running n then n
      else
        let n = n\<lparr>running := False\<rparr>;
            n = (if grpc_server n then n\<lparr>grpc_server := False\<rparr> else n);
            n = (if producer_joinable n then n\<lparr>producer_joinable := False\<rparr> else n);
            (sm, alarm) = sm_shutdown (fsm n) (alarm_flag_now n)
        in n\<lparr>fsm := sm, alarm_flag_now := alarm\<rparr>)"

definition node_destroy :: "telemetry_node \<Rightarrow> telemetry_node" where
  "node_destroy n = node_stop n"

definition node_current_state :: "telemetry_node \<Rightarrow> daemon_state" where
  "node_current_state n = sm_state (fsm n)"

definition node_processed_count :: "telemetry_node \<Rightarrow> u64" where
  "node_processed_count n = node_count n"

definition node_last_value :: "telemetry_node \<Rightarrow> double" where
  "node_last_value n = last_filtered n"

definition bound_port :: "telemetry_node \<Rightarrow> int" where
  "bound_port n = actual_port n"

subsection \<open>The stream queue\<close>

definition push_snapshot :: "processed_snapshot \<Rightarrow> telemetry_node \<Rightarrow> telemetry_node" where
  "push_snapshot snap n =
     (let q = stream_queue n;
          q = (if STREAM_QUEUE_CAP \<le> length q then tl q else q)
      in n\<lparr>stream_queue := q @ [snap]\<rparr>)"

text \<open>
  The wait ends when the queue has an element, the node stops, or the time is over; in the last two
  cases with an empty queue nothing is returned.
\<close>

definition pop_snapshot :: "telemetry_node \<Rightarrow> telemetry_node \<times> processed_snapshot option" where
  "pop_snapshot n =
     (case stream_queue n of
        [] \<Rightarrow> (n, None)
      | snap # q \<Rightarrow> (n\<lparr>stream_queue := q\<rparr>, Some snap))"

subsection \<open>The producer\<close>

definition process_frame :: "int \<Rightarrow> telemetry_node \<Rightarrow> telemetry_frame \<Rightarrow> telemetry_node option" where
  "process_frame now_ms n frame = do {
     (proc, metric) \<leftarrow> dp_process (processor n) frame;
     let n = n\<lparr>processor := proc\<rparr>;
     let n = n\<lparr>last_raw := frame_value frame\<rparr>;
     let n = n\<lparr>last_filtered := filtered_value metric\<rparr>;
     let alarm = alarm_flag metric;
     let n = (if alarm
              then
                let n = n\<lparr>alarm_flag_now := True\<rparr>
                in if sm_state (fsm n) = RUNNING
                   then case sm_fault (metric_sensor_id metric) (frame_value frame) (Fin 80) (fsm n) (alarm_flag_now n) of
                          (sm, alarm) \<Rightarrow> n\<lparr>fsm := sm, alarm_flag_now := alarm\<rparr>
                   else n
              else n);
     let n = n\<lparr>node_count := node_count n + 1\<rparr>;
     Some (push_snapshot
       \<lparr>snap_node_id = node_id n, raw_value = frame_value frame, snap_filtered = filtered_value metric,
        alarm_active = alarm, fsm_state = stateToString (sm_state (fsm n)), timestamp_ms = now_ms\<rparr> n)
   }"

definition node_source :: "telemetry_node \<Rightarrow> simulated_source" where
  "node_source n = ss_new (node_id n @ ''_sensor'') (Fin 50) (Fin 10) (Fin 0) (Fin 5)"

text \<open>One iteration of the producer's loop: the draws, the time of the sample and of its processing.\<close>

definition producer_loop_body :: "(double \<times> double) \<times> int \<times> int \<Rightarrow> telemetry_node \<Rightarrow> telemetry_node option" where
  "producer_loop_body inp n =
     (case inp of
        (draws, now, now_ms) \<Rightarrow>
          (if \<not> running n then Some n
           else
             case ss_read draws now (node_source n) of
               (_, frame_opt) \<Rightarrow> do {
                 rx \<leftarrow> (case frame_opt of
                         Some frame \<Rightarrow> map_option fst (rx_push (receiver n) frame)
                       | None \<Rightarrow> Some (receiver n));
                 (rx, n) \<leftarrow> drain rx_pop (process_frame now_ms) rx n;
                 Some (n\<lparr>receiver := rx\<rparr>)
               }))"

subsection \<open>The service\<close>

record node_status =
  st_node_id :: string
  st_fsm_state :: string
  st_processed_count :: u64
  st_last_value :: double

definition get_node_status :: "telemetry_node \<Rightarrow> node_status" where
  "get_node_status n =
     \<lparr>st_node_id = node_id n, st_fsm_state = stateToString (sm_state (fsm n)),
      st_processed_count = node_count n, st_last_value = last_filtered n\<rparr>"

text \<open>
  The stream: before each turn the producer may have added snapshots; a turn sees whether the call is
  cancelled, the time, and whether the write succeeds. The result is what was written, and whether the
  call has ended.
\<close>

fun stream_telemetry ::
  "int \<Rightarrow> (processed_snapshot list \<times> bool \<times> int \<times> bool) list \<Rightarrow> telemetry_node \<Rightarrow>
   telemetry_node \<times> processed_snapshot list \<times> bool" where
  "stream_telemetry deadline [] n = (n, [], False)"
| "stream_telemetry deadline ((added, cancelled, now, write_ok) # turns) n =
     (let n = fold push_snapshot added n in
      if cancelled \<or> deadline \<le> now then (n, [], True)
      else
        case pop_snapshot n of
          (n, None) \<Rightarrow> stream_telemetry deadline turns n
        | (n, Some snap) \<Rightarrow>
            if \<not> write_ok then (n, [], True)
            else case stream_telemetry deadline turns n of (n, out, ended) \<Rightarrow> (n, snap # out, ended))"

subsection \<open>Specification\<close>

text \<open>The frames of a list of inputs, and the snapshot owed for the last frame of a history.\<close>

definition drawn :: "string \<Rightarrow> (double \<times> double) \<times> int \<times> int \<Rightarrow> telemetry_frame" where
  "drawn nid inp =
     \<lparr>sensor_id = nid @ ''_sensor'',
      frame_value = (if dless (snd (fst inp)) (Fin 0) then Fin 100 else fst (fst inp)),
      timestamp = fst (snd inp)\<rparr>"

definition alarm_after :: "telemetry_frame list \<Rightarrow> bool" where
  "alarm_after frs \<longleftrightarrow> 3 \<le> trailing_run (Fin 80) (Fin 20) (map frame_value frs)"

definition faulted :: "telemetry_frame list \<Rightarrow> bool" where
  "faulted frs \<longleftrightarrow> (\<exists>i \<in> {1..length frs}. alarm_after (take i frs))"

definition snapshot_at :: "string \<Rightarrow> ((double \<times> double) \<times> int \<times> int) list \<Rightarrow> processed_snapshot" where
  "snapshot_at nid inps =
     (let frs = map (drawn nid) inps
      in \<lparr>snap_node_id = nid, raw_value = frame_value (last frs),
          snap_filtered = Fin (mean (last_n 10 (map (\<lambda>fr. fin_of (frame_value fr)) frs))),
          alarm_active = alarm_after frs,
          fsm_state = (if faulted frs then ''FAULT'' else ''RUNNING''),
          timestamp_ms = snd (snd (last inps))\<rparr>)"

text \<open>What holds of a started node after a list of iterations.\<close>

definition node_holds :: "string \<Rightarrow> ((double \<times> double) \<times> int \<times> int) list \<Rightarrow> telemetry_node \<Rightarrow> bool" where
  "node_holds nid inps n \<longleftrightarrow>
     (let frs = map (drawn nid) inps
      in node_id n = nid \<and> running n \<and> rx_inv (receiver n) \<and> rx_contents (receiver n) = [] \<and>
         (\<exists>ms. run_op dp_process dp_default frs = Some (processor n, ms)) \<and>
         sm_state (fsm n) = (if faulted frs then FAULT else RUNNING) \<and>
         node_count n = of_nat (length inps) \<and>
         (inps \<noteq> [] \<longrightarrow> last_raw n = raw_value (snapshot_at nid inps) \<and> last_filtered n = snap_filtered (snapshot_at nid inps)) \<and>
         stream_queue n = last_n STREAM_QUEUE_CAP (map (\<lambda>i. snapshot_at nid (take i inps)) [1..<Suc (length inps)]))"

subsection \<open>Lemmas\<close>

lemma node_frame: "ss_read draws now (node_source n) = (node_source n, Some (drawn (node_id n) (draws, now, t)))"
  by (simp add: ss_read_def node_source_def ss_new_def drawn_def)

lemma faulted_snoc: "faulted (frs @ [fr]) \<longleftrightarrow> faulted frs \<or> alarm_after (frs @ [fr])"
proof -
  have "{1..length (frs @ [fr])} = insert (Suc (length frs)) {1..length frs}" by auto
  moreover have "alarm_after (take i (frs @ [fr])) = alarm_after (take i frs)" if "i \<in> {1..length frs}" for i
    using that by simp
  ultimately show ?thesis by (auto simp: faulted_def)
qed

lemma push_snapshot_queue: "stream_queue (push_snapshot x n) =
    (if STREAM_QUEUE_CAP \<le> length (stream_queue n) then tl (stream_queue n) else stream_queue n) @ [x]"
  by (simp add: push_snapshot_def)

lemma process_frame_holds:
  assumes "dp_process (processor n) fr = Some (p, m)"
  shows "\<exists>n'. process_frame t n fr = Some n' \<and> processor n' = p \<and> node_id n' = node_id n \<and>
    running n' = running n \<and> node_count n' = node_count n + 1 \<and>
    last_raw n' = frame_value fr \<and> last_filtered n' = filtered_value m \<and>
    sm_state (fsm n') = (if alarm_flag m \<and> sm_state (fsm n) = RUNNING then FAULT else sm_state (fsm n)) \<and>
    stream_queue n' = (if STREAM_QUEUE_CAP \<le> length (stream_queue n) then tl (stream_queue n) else stream_queue n) @
      [\<lparr>snap_node_id = node_id n, raw_value = frame_value fr, snap_filtered = filtered_value m,
        alarm_active = alarm_flag m, fsm_state = stateToString (sm_state (fsm n')), timestamp_ms = t\<rparr>]"
  using assms by (simp add: process_frame_def Let_def push_snapshot_def sm_fault_def)

lemma prefixes_snoc:
  "map (\<lambda>i. f (take i (xs @ [x]))) [1..<Suc (length (xs @ [x]))] =
   map (\<lambda>i. f (take i xs)) [1..<Suc (length xs)] @ [f (xs @ [x])]"
proof -
  have "[1..<Suc (length (xs @ [x]))] = [1..<Suc (length xs)] @ [Suc (length xs)]" by simp
  then show ?thesis by (simp del: upt_Suc)
qed

text \<open>The metric of the next frame, and the snapshots kept after it.\<close>

lemma next_metric:
  assumes "node_holds nid inps n"
    and "list_all (\<lambda>fr. is_finite (frame_value fr)) (map (drawn nid) (inps @ [inp]))"
    and "run_fits (Fin 80) (Fin 20) (map frame_value (map (drawn nid) (inps @ [inp])))"
  obtains p ms where
    "dp_process (processor n) (drawn nid inp) = Some (p, metric_at 10 (Fin 80) (Fin 20) 3 (map (drawn nid) inps @ [drawn nid inp]))"
    "run_op dp_process dp_default (map (drawn nid) inps @ [drawn nid inp]) = Some (p, ms)"
proof -
  obtain ms where ms: "run_op dp_process dp_default (map (drawn nid) inps) = Some (processor n, ms)"
    using assms(1) by (auto simp: node_holds_def Let_def)
  then obtain p where "run_op dp_process (processor n) [drawn nid inp] =
      Some (p, [metric_at 10 (Fin 80) (Fin 20) 3 (map (drawn nid) inps @ [drawn nid inp])])"
    using metrics_of_waiting [OF ms [unfolded dp_default_def], of "[drawn nid inp]"] assms(2,3) by auto
  with ms show thesis by (intro that) (auto simp: run_op_append split: option.splits)
qed

lemma latest_snapshots_snoc:
  assumes "q = last_n STREAM_QUEUE_CAP (map (\<lambda>i. snapshot_at nid (take i inps)) [1..<Suc (length inps)])"
  shows "(if STREAM_QUEUE_CAP \<le> length q then tl q else q) @ [snapshot_at nid (inps @ [inp])] =
    last_n STREAM_QUEUE_CAP (map (\<lambda>i. snapshot_at nid (take i (inps @ [inp]))) [1..<Suc (length (inps @ [inp]))])"
  unfolding assms prefixes_snoc by (rule last_n_push) (simp add: STREAM_QUEUE_CAP_def)

lemma iteration_holds:
  assumes "node_holds nid inps n"
    and "list_all (\<lambda>fr. is_finite (frame_value fr)) (map (drawn nid) (inps @ [inp]))"
    and "run_fits (Fin 80) (Fin 20) (map frame_value (map (drawn nid) (inps @ [inp])))"
  shows "\<exists>n'. producer_loop_body inp n = Some n' \<and> node_holds nid (inps @ [inp]) n'"
proof -
  obtain draws now t where inp: "inp = (draws, now, t)" by (cases inp)
  let ?frs = "map (drawn nid) inps" and ?fr = "drawn nid inp"
  have h: "node_id n = nid" "running n" "rx_inv (receiver n)" "rx_contents (receiver n) = []"
    "sm_state (fsm n) = (if faulted ?frs then FAULT else RUNNING)" "node_count n = of_nat (length inps)"
    "stream_queue n = last_n STREAM_QUEUE_CAP (map (\<lambda>i. snapshot_at nid (take i inps)) [1..<Suc (length inps)])"
    using assms(1) by (simp_all add: node_holds_def Let_def)
  let ?m = "metric_at 10 (Fin 80) (Fin 20) 3 (?frs @ [?fr])"
  obtain p ms where p: "dp_process (processor n) ?fr = Some (p, ?m)" "run_op dp_process dp_default (?frs @ [?fr]) = Some (p, ms)"
    using assms by (rule next_metric)
  obtain rx where rx: "rx_push (receiver n) ?fr = Some (rx, True)" "rx_inv rx" "rx_contents rx = [?fr]"
    using rxq.push_room [OF h(3), of ?fr] h(4) by (auto simp: CAPACITY_def)
  obtain n' where n': "process_frame t n ?fr = Some n'" "processor n' = p" "node_id n' = nid" "running n'"
    "node_count n' = node_count n + 1" "last_raw n' = frame_value ?fr" "last_filtered n' = filtered_value ?m"
    "sm_state (fsm n') = (if alarm_flag ?m \<and> sm_state (fsm n) = RUNNING then FAULT else sm_state (fsm n))"
    "stream_queue n' = (if STREAM_QUEUE_CAP \<le> length (stream_queue n) then tl (stream_queue n) else stream_queue n) @
      [\<lparr>snap_node_id = nid, raw_value = frame_value ?fr, snap_filtered = filtered_value ?m,
        alarm_active = alarm_flag ?m, fsm_state = stateToString (sm_state (fsm n')), timestamp_ms = t\<rparr>]"
    using process_frame_holds [OF p(1), of t] h(1,2) by auto
  obtain rx' where rx': "rx_inv rx'" "rx_contents rx' = []"
    "drain rx_pop (process_frame t) rx n = Some (rx', n')"
    using rxq.drain_contents [OF rx(2), of "process_frame t" n] rx(3) n'(1) by auto
  have al: "alarm_flag ?m \<longleftrightarrow> alarm_after (?frs @ [?fr])"
    by (simp add: metric_at_def alarm_after_def)
  have st: "sm_state (fsm n') = (if faulted (?frs @ [?fr]) then FAULT else RUNNING)"
    using n'(8) h(5) by (simp add: al faulted_snoc)
  have snap: "snapshot_at nid (inps @ [inp]) =
      \<lparr>snap_node_id = nid, raw_value = frame_value ?fr, snap_filtered = filtered_value ?m,
        alarm_active = alarm_flag ?m, fsm_state = stateToString (sm_state (fsm n')), timestamp_ms = t\<rparr>"
    unfolding al st by (simp add: snapshot_at_def Let_def metric_at_def inp)
  have q: "stream_queue n' = last_n STREAM_QUEUE_CAP
      (map (\<lambda>i. snapshot_at nid (take i (inps @ [inp]))) [1..<Suc (length (inps @ [inp]))])"
    unfolding n'(9) snap [symmetric] by (rule latest_snapshots_snoc [OF h(7)])
  have "producer_loop_body inp n = Some (n'\<lparr>receiver := rx'\<rparr>)"
    using h(2) rx(1) rx'(3) node_frame [of draws now n t] h(1) by (simp add: producer_loop_body_def inp)
  moreover have "node_holds nid (inps @ [inp]) (n'\<lparr>receiver := rx'\<rparr>)"
    using n'(2-7) rx' st q h(6) p(2) snap by (simp add: node_holds_def Let_def)
  ultimately show ?thesis by blast
qed

lemma node_run_holds:
  assumes "list_all (\<lambda>fr. is_finite (frame_value fr)) (map (drawn nid) inps)"
    and "run_fits (Fin 80) (Fin 20) (map frame_value (map (drawn nid) inps))"
  shows "\<exists>n. fold_opt (\<lambda>n inp. producer_loop_body inp n) (snd (node_start built (node_new nid))) inps = Some n \<and> node_holds nid inps n"
  using assms
proof (induction inps rule: rev_induct)
  case Nil
  show ?case
    by (simp add: node_holds_def node_start_def node_new_def Let_def sm_start_def sm_new_def rxq.invar_new
        rxq.contents_new setAlarmCallback_def setStateChangedCallback_def faulted_def last_n_def)
next
  case (snoc inp inps)
  then obtain n where "fold_opt (\<lambda>n inp. producer_loop_body inp n) (snd (node_start built (node_new nid))) inps = Some n" "node_holds nid inps n"
    by (auto simp: run_fits_snoc)
  moreover from this(2) obtain n' where "producer_loop_body inp n = Some n'" "node_holds nid (inps @ [inp]) n'"
    using iteration_holds [OF _ snoc.prems] by blast
  ultimately show ?case by (simp add: fold_opt_append)
qed

subsection \<open>Properties\<close>

text \<open>
  C38. A node that was started and runs \<open>k\<close> iterations of its producer on finite samples, with no run of out-of-range
  samples long enough to overflow the counter of the detector (an \<^verbatim>\<open>int\<close>), never goes wrong: it has counted \<open>k\<close>
  samples modulo two to the 64, holds the raw value and the sliding mean of the last one, its stream queue holds the
  snapshots of the last 256 of them in order, each with the raw value, the sliding mean, the alarm state and the state
  of the machine at its time, and the node is in FAULT exactly if some sample so far completed a run of three
  out of range.\<close>

theorem node_keeps_latest_snapshots:
  assumes "list_all (\<lambda>fr. is_finite (frame_value fr)) (map (drawn nid) inps)"
    and "run_fits (Fin 80) (Fin 20) (map frame_value (map (drawn nid) inps))"
  shows "\<exists>n. fold_opt (\<lambda>n inp. producer_loop_body inp n) (snd (node_start built (node_new nid))) inps = Some n \<and>
    node_processed_count n = of_nat (length inps) \<and>
    (inps \<noteq> [] \<longrightarrow> last_raw n = frame_value (drawn nid (last inps)) \<and>
       node_last_value n = Fin (mean (last_n 10 (map (\<lambda>inp. fin_of (frame_value (drawn nid inp))) inps)))) \<and>
    node_current_state n = (if faulted (map (drawn nid) inps) then FAULT else RUNNING) \<and>
    stream_queue n = last_n 256 (map (\<lambda>i. snapshot_at nid (take i inps)) [1..<Suc (length inps)])"
  using node_run_holds [OF assms, of built]
  by (auto simp: node_holds_def Let_def STREAM_QUEUE_CAP_def node_processed_count_def node_last_value_def
      node_current_state_def snapshot_at_def last_map comp_def)

theorem node_keeps_latest_snapshots_witness:
  "\<exists>n. fold_opt (\<lambda>n inp. producer_loop_body inp n) (snd (node_start (True, 50051) (node_new ''w'')))
      [((Fin 90, Fin (1 / 2)), 1, 2)] = Some n \<and> node_processed_count n = 1 \<and> last_raw n = Fin 90 \<and> node_last_value n = Fin 90 \<and>
     node_current_state n = RUNNING \<and> length (stream_queue n) = 1"
proof -
  let ?inps = "[((Fin 90, Fin (1 / 2)), 1, 2)]"
  have "run_fits (Fin 80) (Fin 20) (map frame_value (map (drawn ''w'') ?inps))"
    by (rule run_fits_short) (simp add: INT_MAX_def)
  moreover have "\<not> faulted (map (drawn ''w'') ?inps)"
    by (simp add: faulted_def alarm_after_def drawn_def trailing_run_def)
  ultimately show ?thesis
    using node_keeps_latest_snapshots [of "''w''" ?inps "(True, 50051)"] by (auto simp: drawn_def mean_def last_n_def)
qed

text \<open>
  A node cannot be started a second time: after Start and Stop a further Start throws, but leaves the
  node marked as running, so that every later Start returns silently without starting anything, while the
  state machine is in SHUTDOWN.\<close>

lemma node_restart_is_stuck:
  "\<exists>n. node_start b2 (node_stop (snd (node_start b1 (node_new nid)))) = (Some ''start() called from SHUTDOWN state'', n) \<and>
     running n \<and> sm_state (fsm n) = SHUTDOWN \<and> \<not> producer_joinable n \<and> node_start b3 n = (None, n)"
  by (auto simp: node_start_def node_stop_def node_new_def Let_def sm_start_def sm_new_def sm_shutdown_def sm_transition_def
      setAlarmCallback_def setStateChangedCallback_def split: prod.splits)

end
