(* ===== verification/Telemetry_Coordinator.thy ===== *)
theory Telemetry_Coordinator
  imports Telemetry_Node Command_Line
begin

text \<open>
  \<^verbatim>\<open>TelemetryCoordinator\<close>, which polls the workers and answers the health request, \<^verbatim>\<open>TlsCredentials\<close>, and the
  command lines of the two programs. The answers of the workers, the file system and the gRPC library are
  inputs. Every poll runs its critical section under the lock, so polls and queries are steps in some order.
\<close>

subsection \<open>TlsCredentials\<close>

record tls_credentials =
  ca_cert :: string
  node_cert :: string
  node_key :: string

definition read_file :: "(string \<Rightarrow> string option) \<Rightarrow> string \<Rightarrow> string + string" where
  "read_file fs p =
     (case fs p of None \<Rightarrow> Inl (''TlsCredentials: cannot open '' @ p) | Some contents \<Rightarrow> Inr contents)"

text \<open>\<^verbatim>\<open>std::filesystem::path::operator/\<close>.\<close>

definition path_append :: "string \<Rightarrow> string \<Rightarrow> string" where
  "path_append d p =
     (if take 1 p = ''/'' then p
      else if d = [] \<or> last d = CHR ''/'' then d @ p
      else d @ ''/'' @ p)"

definition load_from_dir :: "(string \<Rightarrow> string option) \<Rightarrow> string \<Rightarrow> string \<Rightarrow> string + tls_credentials" where
  "load_from_dir fs dir node_name =
     (case read_file fs (path_append dir ''ca.crt'') of
        Inl e \<Rightarrow> Inl e
      | Inr ca \<Rightarrow>
          (case read_file fs (path_append dir (node_name @ ''.crt'')) of
             Inl e \<Rightarrow> Inl e
           | Inr crt \<Rightarrow>
               (case read_file fs (path_append dir (node_name @ ''.key'')) of
                  Inl e \<Rightarrow> Inl e
                | Inr key \<Rightarrow> Inr \<lparr>ca_cert = ca, node_cert = crt, node_key = key\<rparr>)))"

datatype client_cert_request = REQUEST_AND_REQUIRE_AND_VERIFY | DONT_REQUEST

record ssl_server_options =
  client_cert :: client_cert_request
  server_root_certs :: string
  key_cert_pairs :: "(string \<times> string) list"

record ssl_channel_options =
  channel_root_certs :: string
  pem_private_key :: string
  pem_cert_chain :: string

definition server_credentials :: "tls_credentials \<Rightarrow> ssl_server_options" where
  "server_credentials c =
     \<lparr>client_cert = REQUEST_AND_REQUIRE_AND_VERIFY, server_root_certs = ca_cert c,
      key_cert_pairs = [(node_key c, node_cert c)]\<rparr>"

definition channel_credentials :: "tls_credentials \<Rightarrow> ssl_channel_options" where
  "channel_credentials c =
     \<lparr>channel_root_certs = ca_cert c, pem_private_key = node_key c, pem_cert_chain = node_cert c\<rparr>"

subsection \<open>TelemetryCoordinator\<close>

record worker_conn =
  worker_id :: string
  endpoint :: string
  channel :: ssl_channel_options
  last_status :: node_status
  reachable :: bool

definition empty_status :: node_status where
  "empty_status = \<lparr>st_node_id = [], st_fsm_state = [], st_processed_count = 0, st_last_value = Fin 0\<rparr>"

record coordinator =
  workers :: "worker_conn list"
  coord_running :: bool
  poll_threads :: "nat list"

definition coordinator_new :: "(string \<times> string) list \<Rightarrow> tls_credentials \<Rightarrow> coordinator" where
  "coordinator_new ws creds =
     \<lparr>workers = map (\<lambda>(i, e). \<lparr>worker_id = i, endpoint = e, channel = channel_credentials creds,
        last_status = empty_status, reachable = False\<rparr>) ws, coord_running = False, poll_threads = []\<rparr>"

definition coordinator_start :: "coordinator \<Rightarrow> coordinator" where
  "coordinator_start c =
     (let c = c\<lparr>coord_running := True\<rparr>
      in c\<lparr>poll_threads := poll_threads c @ [0..<length (workers c)]\<rparr>)"

definition coordinator_stop :: "coordinator \<Rightarrow> coordinator" where
  "coordinator_stop c =
     (if \<not> coord_running c then c else c\<lparr>coord_running := False, poll_threads := []\<rparr>)"

text \<open>One turn of a polling thread; \<open>answer\<close> is the worker's status, unless the call failed.\<close>

definition poll_worker :: "coordinator \<Rightarrow> nat \<times> node_status option \<Rightarrow> coordinator option" where
  "poll_worker c ia =
     (case ia of
        (idx, answer) \<Rightarrow>
          if \<not> coord_running c then Some c
          else do {
            w \<leftarrow> vec_get (workers c) idx;
            ws \<leftarrow> vec_set (workers c) idx
              (case answer of Some resp \<Rightarrow> w\<lparr>last_status := resp, reachable := True\<rparr> | None \<Rightarrow> w\<lparr>reachable := False\<rparr>);
            Some (c\<lparr>workers := ws\<rparr>)
          })"

definition latest_statuses :: "coordinator \<Rightarrow> string \<rightharpoonup> node_status" where
  "latest_statuses c = foldl (\<lambda>m w. m(worker_id w \<mapsto> last_status w)) Map.empty (workers c)"

fun reachable_in :: "string \<Rightarrow> worker_conn list \<Rightarrow> bool" where
  "reachable_in nid [] = False"
| "reachable_in nid (w # ws) = (if worker_id w = nid then reachable w else reachable_in nid ws)"

definition is_reachable :: "coordinator \<Rightarrow> string \<Rightarrow> bool" where
  "is_reachable c nid = reachable_in nid (workers c)"

fun all_running_in :: "worker_conn list \<Rightarrow> bool" where
  "all_running_in [] = True"
| "all_running_in (w # ws) =
     (if \<not> reachable w \<or> st_fsm_state (last_status w) \<noteq> ''RUNNING'' then False else all_running_in ws)"

definition all_nodes_running :: "coordinator \<Rightarrow> bool" where
  "all_nodes_running c = (all_running_in (workers c) \<and> workers c \<noteq> [])"

subsection \<open>The health endpoint and the command lines\<close>

text \<open>The JSON object of the health answer: an entry per worker name, and the flag \<^verbatim>\<open>all_running\<close>.\<close>

definition health :: "coordinator \<Rightarrow> (string \<rightharpoonup> string \<times> double \<times> bool) \<times> bool" where
  "health c =
     (let statuses = latest_statuses c
      in (\<lambda>i. map_option (\<lambda>st. (st_fsm_state st, st_last_value st, is_reachable c i)) (statuses i),
          all_nodes_running c))"

definition node_port :: "string \<Rightarrow> string + u16" where
  "node_port a =
     (case stoi a of
        Inl e \<Rightarrow> Inl e
      | Inr p \<Rightarrow> if p < 1 \<or> 65535 < p then Inl ''port out of range'' else Inr (of_int p))"

text \<open>The name, the port and the credentials (none: insecure) with which \<^verbatim>\<open>main_node\<close> starts its node.\<close>

definition main_node ::
  "(string \<Rightarrow> string option) \<Rightarrow> string list \<Rightarrow> main_exit + (string \<times> u16 \<times> ssl_server_options option)" where
  "main_node fs argv =
     (let node_name = (case nth_arg argv 1 of Some a \<Rightarrow> a | None \<Rightarrow> ''node0'')
      in case (case nth_arg argv 2 of Some a \<Rightarrow> node_port a | None \<Rightarrow> Inr 50051) of
           Inl e \<Rightarrow> Inl (Exit 1)
         | Inr grpc_port \<Rightarrow>
             (case nth_arg argv 3 of
                None \<Rightarrow> Inr (node_name, grpc_port, None)
              | Some dir \<Rightarrow>
                  (case load_from_dir fs dir node_name of
                     Inl e \<Rightarrow> Inl (Terminate e)
                   | Inr tls \<Rightarrow> Inr (node_name, grpc_port, Some (server_credentials tls)))))"

definition main_coordinator :: "(string \<Rightarrow> string option) \<Rightarrow> string list \<Rightarrow> main_exit + (coordinator \<times> int)" where
  "main_coordinator fs argv =
     (case nth_arg argv 1 of
        None \<Rightarrow> Inl (Exit 1)
      | Some certs_dir \<Rightarrow>
          (case (case nth_arg argv 2 of Some a \<Rightarrow> stoi a | None \<Rightarrow> Inr 8080) of
             Inl e \<Rightarrow> Inl (Terminate e)
           | Inr health_port \<Rightarrow>
               (case load_from_dir fs certs_dir ''coordinator'' of
                  Inl e \<Rightarrow> Inl (Terminate e)
                | Inr creds \<Rightarrow>
                    Inr (coordinator_start (coordinator_new
                      [(''worker1'', ''worker1:50051''), (''worker2'', ''worker2:50051'')] creds), health_port))))"

text \<open>
  The programs up to their end: \<open>built\<close> gives the server for the port and the credentials, and \<open>inputs\<close>
  are the turns of the producer, or the polls, until the signal to end arrives.
\<close>

definition node_program ::
  "(string \<Rightarrow> string option) \<Rightarrow> string list \<Rightarrow> (u16 \<Rightarrow> ssl_server_options option \<Rightarrow> bool \<times> int) \<Rightarrow>
   ((double \<times> double) \<times> int \<times> int) list \<Rightarrow> (main_exit \<times> telemetry_node option) option" where
  "node_program fs argv built inputs =
     (case main_node fs argv of
        Inl e \<Rightarrow> Some (e, None)
      | Inr (node_name, grpc_port, creds) \<Rightarrow>
          (case node_start (built grpc_port creds) (node_new node_name) of
             (Some e, _) \<Rightarrow> Some (Terminate e, None)
           | (None, node) \<Rightarrow> do {
               node \<leftarrow> fold_opt (\<lambda>n inp. producer_loop_body inp n) node inputs;
               Some (Exit 0, Some (node_stop node))
             }))"

definition coordinator_program ::
  "(string \<Rightarrow> string option) \<Rightarrow> string list \<Rightarrow> (nat \<times> node_status option) list \<Rightarrow> (main_exit \<times> coordinator option) option" where
  "coordinator_program fs argv polls =
     (case main_coordinator fs argv of
        Inl e \<Rightarrow> Some (e, None)
      | Inr (coord, health_port) \<Rightarrow> do {
          coord \<leftarrow> fold_opt poll_worker coord polls;
          Some (Exit 0, Some (coordinator_stop coord))
        })"

subsection \<open>Lemmas\<close>

text \<open>The answers of the latest poll of each worker.\<close>

definition last_poll :: "(nat \<times> node_status option) list \<Rightarrow> nat \<Rightarrow> node_status option option" where
  "last_poll ps i = map_option snd (find (\<lambda>p. fst p = i) (rev ps))"

lemma last_poll_snoc: "last_poll (ps @ [p]) i = (if fst p = i then Some (snd p) else last_poll ps i)"
  by (simp add: last_poll_def)

lemma all_running_in_iff:
  "all_running_in ws \<longleftrightarrow> (\<forall>w \<in> set ws. reachable w \<and> st_fsm_state (last_status w) = ''RUNNING'')"
  by (induction ws) auto

definition tracks :: "(nat \<times> node_status option) list \<Rightarrow> nat \<Rightarrow> worker_conn \<Rightarrow> bool" where
  "tracks ps i w \<longleftrightarrow>
     (case last_poll ps i of
        Some (Some st) \<Rightarrow> reachable w \<and> last_status w = st
      | _ \<Rightarrow> \<not> reachable w)"

lemma polls_track:
  assumes "fold_opt poll_worker c ps = Some c'" "\<forall>w \<in> set (workers c). \<not> reachable w" "coord_running c"
  shows "coord_running c' \<and> length (workers c') = length (workers c) \<and> (\<forall>i < length (workers c). tracks ps i (workers c' ! i))"
  using assms(1)
proof (induction ps arbitrary: c' rule: rev_induct)
  case Nil
  then show ?case using assms(2,3) by (auto simp: tracks_def last_poll_def)
next
  case (snoc p ps)
  obtain c1 where c1: "fold_opt poll_worker c ps = Some c1" "poll_worker c1 p = Some c'"
    using snoc.prems by (auto simp: fold_opt_append split: option.splits)
  obtain k a where p: "p = (k, a)" by (cases p)
  from snoc.IH [OF c1(1)] c1(2) show ?case
    by (auto simp: p poll_worker_def bind_eq_Some_conv vec_get_eq_Some vec_set_eq_Some tracks_def last_poll_snoc
        nth_list_update split: option.splits)
qed

lemma load_from_dir_ca:
  "load_from_dir fs dir nm = Inr tls \<Longrightarrow> fs (path_append dir ''ca.crt'') = Some (ca_cert tls)"
  by (auto simp: load_from_dir_def read_file_def split: sum.splits option.splits)

lemma load_from_dir_own:
  "load_from_dir fs dir nm = Inr tls \<Longrightarrow>
     fs (path_append dir (nm @ ''.crt'')) = Some (node_cert tls) \<and> fs (path_append dir (nm @ ''.key'')) = Some (node_key tls)"
  by (auto simp: load_from_dir_def read_file_def split: sum.splits option.splits)

lemma node_port_range: "node_port a = Inr p \<Longrightarrow> 1 \<le> uint p \<and> stoi a = Inr (uint p)"
  by (auto simp: node_port_def uint_word_of_int_eq take_bit_int_eq_self split: sum.splits if_splits)

lemma main_coordinator_ok:
  assumes "main_coordinator fs argv = Inr (c, hp)"
  obtains dir creds where "nth_arg argv 1 = Some dir" "load_from_dir fs dir ''coordinator'' = Inr creds"
    "c = coordinator_start (coordinator_new [(''worker1'', ''worker1:50051''), (''worker2'', ''worker2:50051'')] creds)"
  using assms by (auto simp: main_coordinator_def split: option.splits sum.splits)

text \<open>
  A node that starts and is told to end has answered for all its samples, is stopped with its producer
  joined and its server gone, and its machine is shut down.
\<close>

lemma node_program_ends:
  assumes "main_node fs argv = Inr (nm, port, creds)"
    and "list_all (\<lambda>fr. is_finite (frame_value fr)) (map (drawn nm) inps)"
    and "run_fits (Fin 80) (Fin 20) (map frame_value (map (drawn nm) inps))"
  shows "\<exists>n. node_program fs argv built inps = Some (Exit 0, Some n) \<and> node_processed_count n = of_nat (length inps) \<and>
    \<not> running n \<and> \<not> producer_joinable n \<and> \<not> grpc_server n \<and> node_current_state n = SHUTDOWN \<and> node_destroy n = n"
proof -
  have start: "node_start (built port creds) (node_new nm) = (None, snd (node_start (built port creds) (node_new nm)))"
    by (simp add: node_start_def node_new_def Let_def sm_start_def sm_new_def setAlarmCallback_def setStateChangedCallback_def)
  obtain n where n: "fold_opt (\<lambda>n inp. producer_loop_body inp n) (snd (node_start (built port creds) (node_new nm))) inps = Some n"
      "node_holds nm inps n"
    using node_run_holds [OF assms(2,3)] by blast
  have "node_program fs argv built inps = Some (Exit 0, Some (node_stop n))"
    unfolding node_program_def assms(1) sum.case prod.case by (subst start) (simp add: n(1))
  moreover have "running n" "node_count n = of_nat (length inps)" "sm_state (fsm n) \<noteq> SHUTDOWN"
    using n(2) by (auto simp: node_holds_def Let_def)
  ultimately show ?thesis
    by (auto simp: node_stop_def node_destroy_def node_processed_count_def node_current_state_def sm_shutdown_def
        sm_transition_def Let_def split: prod.splits)
qed

subsection \<open>Properties\<close>

text \<open>
  C39. Whatever the order in which the polling threads run, the coordinator reports that all nodes are running
  exactly if there is a worker and the latest poll of every worker succeeded with a node in RUNNING; a worker
  never polled or last unreachable counts as not running.\<close>

theorem all_running_iff_latest_polls:
  assumes "fold_opt poll_worker (coordinator_start (coordinator_new ws creds)) ps = Some c"
  shows "all_nodes_running c \<longleftrightarrow>
    ws \<noteq> [] \<and> (\<forall>i < length ws. \<exists>st. last_poll ps i = Some (Some st) \<and> st_fsm_state st = ''RUNNING'')"
proof -
  have t: "length (workers c) = length ws" "\<And>i. i < length ws \<Longrightarrow> tracks ps i (workers c ! i)"
    using polls_track [OF assms] by (auto simp: coordinator_new_def coordinator_start_def split_beta)
  have "reachable (workers c ! i) \<and> st_fsm_state (last_status (workers c ! i)) = ''RUNNING'' \<longleftrightarrow>
      (\<exists>st. last_poll ps i = Some (Some st) \<and> st_fsm_state st = ''RUNNING'')" if "i < length ws" for i
    using t(2) [OF that] by (auto simp: tracks_def split: option.splits)
  then show ?thesis
    using t(1) by (auto simp: all_nodes_running_def all_running_in_iff all_set_conv_all_nth)
qed

theorem all_running_iff_latest_polls_witness:
  "\<exists>c. fold_opt poll_worker (coordinator_start (coordinator_new [(''worker1'', ''worker1:50051'')] \<lparr>ca_cert = [], node_cert = [], node_key = []\<rparr>))
      [(0, Some (get_node_status (snd (node_start (True, 1) (node_new ''worker1'')))))] = Some c \<and> all_nodes_running c"
proof -
  let ?st = "get_node_status (snd (node_start (True, 1) (node_new ''worker1'')))"
  let ?c = "coordinator_start (coordinator_new [(''worker1'', ''worker1:50051'')] \<lparr>ca_cert = [], node_cert = [], node_key = []\<rparr>)"
  have st: "st_fsm_state ?st = ''RUNNING''"
    by (simp add: get_node_status_def node_start_def node_new_def Let_def sm_start_def sm_new_def
        setAlarmCallback_def setStateChangedCallback_def)
  obtain c where c: "fold_opt poll_worker ?c [(0, Some ?st)] = Some c"
    by (simp add: poll_worker_def coordinator_new_def coordinator_start_def vec_get_def vec_set_def)
  from all_running_iff_latest_polls [OF c] st have "all_nodes_running c" by (simp add: last_poll_def)
  with c show ?thesis by blast
qed

text \<open>
  A node started with a certificate directory and a coordinator started with the same one end up with
  mutual TLS under a common authority: the node requires and verifies a client certificate against the root
  the coordinator's channels trust, and serves the key and certificate of its own name.\<close>

lemma node_and_coordinator_share_the_authority:
  assumes "main_node fs [prog, nm, port, dir] = Inr (nm', p, creds)"
    and "main_coordinator fs (prog' # dir # rest) = Inr (c, hp)"
  shows "\<exists>so crt key. creds = Some so \<and> nm' = nm \<and> 1 \<le> uint p \<and> client_cert so = REQUEST_AND_REQUIRE_AND_VERIFY \<and>
    key_cert_pairs so = [(key, crt)] \<and> fs (path_append dir (nm @ ''.crt'')) = Some crt \<and> fs (path_append dir (nm @ ''.key'')) = Some key \<and>
    map worker_id (workers c) = [''worker1'', ''worker2''] \<and> coord_running c \<and>
    list_all (\<lambda>w. channel_root_certs (channel w) = server_root_certs so) (workers c)"
proof -
  obtain tls where tls: "load_from_dir fs dir nm = Inr tls" "creds = Some (server_credentials tls)" "nm' = nm" "node_port port = Inr p"
    using assms(1) by (auto simp: main_node_def nth_arg_def split: sum.splits)
  obtain cr where cr: "load_from_dir fs dir ''coordinator'' = Inr cr"
      "c = coordinator_start (coordinator_new [(''worker1'', ''worker1:50051''), (''worker2'', ''worker2:50051'')] cr)"
    using assms(2) by (rule main_coordinator_ok) (simp add: nth_arg_def)
  have "ca_cert tls = ca_cert cr"
    using load_from_dir_ca [OF tls(1)] load_from_dir_ca [OF cr(1)] by simp
  then show ?thesis
    using tls load_from_dir_own [OF tls(1)] node_port_range [OF tls(4)]
    by (simp add: cr(2) server_credentials_def channel_credentials_def coordinator_start_def coordinator_new_def)
qed

lemma node_and_coordinator_share_the_authority_example:
  "\<exists>p so c hp. main_node (\<lambda>p. Some p) [''n'', ''worker1'', ''50052'', ''certs''] = Inr (''worker1'', p, Some so) \<and>
     main_coordinator (\<lambda>p. Some p) [''c'', ''certs''] = Inr (c, hp) \<and> client_cert so = REQUEST_AND_REQUIRE_AND_VERIFY \<and>
     list_all (\<lambda>w. channel_root_certs (channel w) = server_root_certs so) (workers c)"
proof -
  have "node_port ''50052'' = Inr 50052"
    by (simp add: node_port_def stoi_def is_space_def scan_sign_def digit_of_def to_lower_def)
  then obtain creds where n: "main_node (\<lambda>p. Some p) [''n'', ''worker1'', ''50052'', ''certs''] = Inr (''worker1'', 50052, creds)"
    by (simp add: main_node_def nth_arg_def load_from_dir_def read_file_def)
  obtain c hp where c: "main_coordinator (\<lambda>p. Some p) [''c'', ''certs''] = Inr (c, hp)"
    by (simp add: main_coordinator_def nth_arg_def load_from_dir_def read_file_def)
  from node_and_coordinator_share_the_authority [OF n c] n c show ?thesis by auto
qed

end
