(* ===== verification/Distributed_System.thy ===== *)
theory Distributed_System
  imports Telemetry_Coordinator
begin

text \<open>
  The distributed system as a whole: the worker nodes with their producers, and the coordinator that polls
  them. A poll asks the node's service, which answers while the node's server runs and the network carries
  the answer. The steps of the nodes, the polls and the ends of nodes come in any order.
\<close>

subsection \<open>The system\<close>

record distributed =
  dist_nodes :: "telemetry_node list"
  dist_coord :: coordinator

datatype dist_event =
    Node_turn nat "(double \<times> double) \<times> int \<times> int"
  | Node_end nat
  | Poll nat bool

definition dist_start :: "(string \<times> string) list \<Rightarrow> tls_credentials \<Rightarrow> int \<Rightarrow> distributed" where
  "dist_start ws creds port =
     \<lparr>dist_nodes = map (\<lambda>(nm, _). snd (node_start (True, port) (node_new nm))) ws,
      dist_coord = coordinator_start (coordinator_new ws creds)\<rparr>"

definition answer_of :: "telemetry_node \<Rightarrow> bool \<Rightarrow> node_status option" where
  "answer_of n delivered = (if grpc_server n \<and> delivered then Some (get_node_status n) else None)"

fun dist_step :: "distributed \<Rightarrow> dist_event \<Rightarrow> distributed option" where
  "dist_step s (Node_turn i inp) = do {
     n \<leftarrow> vec_get (dist_nodes s) i;
     n \<leftarrow> producer_loop_body inp n;
     ns \<leftarrow> vec_set (dist_nodes s) i n;
     Some (s\<lparr>dist_nodes := ns\<rparr>)
   }"
| "dist_step s (Node_end i) = do {
     n \<leftarrow> vec_get (dist_nodes s) i;
     ns \<leftarrow> vec_set (dist_nodes s) i (node_stop n);
     Some (s\<lparr>dist_nodes := ns\<rparr>)
   }"
| "dist_step s (Poll i delivered) = do {
     n \<leftarrow> vec_get (dist_nodes s) i;
     c \<leftarrow> poll_worker (dist_coord s) (i, answer_of n delivered);
     Some (s\<lparr>dist_coord := c\<rparr>)
   }"

subsection \<open>Lemmas\<close>

lemma stateToString_running [simp]: "stateToString s = ''RUNNING'' \<longleftrightarrow> s = RUNNING"
  by (cases s) simp_all

definition dist_ok :: "nat \<Rightarrow> distributed \<Rightarrow> bool" where
  "dist_ok k s \<longleftrightarrow> length (dist_nodes s) = k \<and> length (workers (dist_coord s)) = k \<and> coord_running (dist_coord s)"

lemma dist_ok_start: "dist_ok (length ws) (dist_start ws creds port)"
  by (simp add: dist_ok_def dist_start_def coordinator_start_def coordinator_new_def)

lemma dist_ok_step: "dist_ok k s \<Longrightarrow> dist_step s e = Some s' \<Longrightarrow> dist_ok k s'"
  by (cases e) (auto simp: dist_ok_def bind_eq_Some_conv vec_set_eq_Some poll_worker_def split: option.splits)

lemma dist_ok_run: "dist_ok k s \<Longrightarrow> fold_opt dist_step s es = Some s' \<Longrightarrow> dist_ok k s'"
  by (rule fold_opt_invariant [OF dist_ok_step])

text \<open>What the coordinator knows of a worker once it was polled and the answer arrived.\<close>

definition informed :: "telemetry_node \<Rightarrow> worker_conn \<Rightarrow> bool" where
  "informed n w \<longleftrightarrow> reachable w = grpc_server n \<and> (grpc_server n \<longrightarrow> last_status w = get_node_status n)"

lemma poll_informs:
  assumes "dist_ok k s" "i < k"
  shows "\<exists>s'. dist_step s (Poll i True) = Some s' \<and> dist_ok k s' \<and> dist_nodes s' = dist_nodes s \<and>
    informed (dist_nodes s ! i) (workers (dist_coord s') ! i) \<and>
    (\<forall>j. j \<noteq> i \<longrightarrow> workers (dist_coord s') ! j = workers (dist_coord s) ! j)"
  using assms by (simp add: dist_ok_def vec_get_def vec_set_def poll_worker_def answer_of_def informed_def)

lemma round_informs:
  assumes "dist_ok k s" "\<forall>i \<in> set is. i < k"
  shows "\<exists>s'. fold_opt dist_step s (map (\<lambda>i. Poll i True) is) = Some s' \<and> dist_ok k s' \<and> dist_nodes s' = dist_nodes s \<and>
    (\<forall>i \<in> set is. informed (dist_nodes s ! i) (workers (dist_coord s') ! i))"
  using assms(2)
proof (induction "is" rule: rev_induct)
  case (snoc i "is")
  then obtain s1 where s1: "fold_opt dist_step s (map (\<lambda>i. Poll i True) is) = Some s1" "dist_ok k s1" "dist_nodes s1 = dist_nodes s"
      "\<forall>i \<in> set is. informed (dist_nodes s ! i) (workers (dist_coord s1) ! i)"
    by auto
  obtain s' where s': "dist_step s1 (Poll i True) = Some s'" "dist_ok k s'" "dist_nodes s' = dist_nodes s1"
      "informed (dist_nodes s1 ! i) (workers (dist_coord s') ! i)"
      "\<forall>j. j \<noteq> i \<longrightarrow> workers (dist_coord s') ! j = workers (dist_coord s1) ! j"
    using poll_informs [OF s1(2), of i] snoc.prems by auto
  have "informed (dist_nodes s ! j) (workers (dist_coord s') ! j)" if "j \<in> set (is @ [i])" for j
    using that s1(3,4) s'(4,5) by (cases "j = i") auto
  then show ?case using s1 s' by (simp add: fold_opt_append del: dist_step.simps)
qed (use assms(1) in simp)

subsection \<open>Properties\<close>

text \<open>
  C14. Health is what the nodes are: whatever the nodes, the polls and the network did before, one round of polls
  that reaches every worker, in any order, makes the coordinator report "all running" exactly if there is a
  worker and every node has its server up and its machine in RUNNING.\<close>

theorem health_reflects_nodes:
  assumes "fold_opt dist_step (dist_start ws creds port) es = Some s" "set is = {..<length ws}"
  shows "\<exists>s'. fold_opt dist_step s (map (\<lambda>i. Poll i True) is) = Some s' \<and> dist_nodes s' = dist_nodes s \<and>
    (snd (health (dist_coord s')) \<longleftrightarrow>
       ws \<noteq> [] \<and> (\<forall>n \<in> set (dist_nodes s). grpc_server n \<and> node_current_state n = RUNNING))"
proof -
  have ok: "dist_ok (length ws) s" by (rule dist_ok_run [OF dist_ok_start assms(1)])
  obtain s' where s': "fold_opt dist_step s (map (\<lambda>i. Poll i True) is) = Some s'" "dist_ok (length ws) s'"
      "dist_nodes s' = dist_nodes s" "\<forall>i < length ws. informed (dist_nodes s ! i) (workers (dist_coord s') ! i)"
    using round_informs [OF ok, of "is"] assms(2) by auto
  have "reachable (workers (dist_coord s') ! i) \<and> st_fsm_state (last_status (workers (dist_coord s') ! i)) = ''RUNNING'' \<longleftrightarrow>
      grpc_server (dist_nodes s ! i) \<and> node_current_state (dist_nodes s ! i) = RUNNING" if "i < length ws" for i
    using s'(4) that by (auto simp: informed_def get_node_status_def node_current_state_def)
  then have "snd (health (dist_coord s')) \<longleftrightarrow>
      ws \<noteq> [] \<and> (\<forall>n \<in> set (dist_nodes s). grpc_server n \<and> node_current_state n = RUNNING)"
    using s'(2) ok by (auto simp: health_def Let_def all_nodes_running_def all_running_in_iff all_set_conv_all_nth dist_ok_def)
  then show ?thesis using s'(1,3) by blast
qed

theorem health_reflects_nodes_witness:
  "\<exists>s s'. fold_opt dist_step (dist_start [(''worker1'', ''worker1:50051''), (''worker2'', ''worker2:50051'')]
        \<lparr>ca_cert = [], node_cert = [], node_key = []\<rparr> 50051) [Poll 0 True, Poll 1 True, Node_end 1] = Some s \<and>
     fold_opt dist_step s [Poll 1 True, Poll 0 True] = Some s' \<and> \<not> snd (health (dist_coord s'))"
proof -
  let ?s0 = "dist_start [(''worker1'', ''worker1:50051''), (''worker2'', ''worker2:50051'')]
        \<lparr>ca_cert = [], node_cert = [], node_key = []\<rparr> 50051"
  obtain s where s: "fold_opt dist_step ?s0 [Poll 0 True, Poll 1 True, Node_end 1] = Some s" "\<not> grpc_server (dist_nodes s ! 1)"
      "length (dist_nodes s) = 2"
    by (simp add: dist_start_def vec_get_def vec_set_def poll_worker_def coordinator_start_def coordinator_new_def
        node_stop_def node_start_def node_new_def sm_start_def sm_new_def setAlarmCallback_def setStateChangedCallback_def Let_def
        split_beta)
  have "set [1, 0 :: nat] = {..<2}" by auto
  with health_reflects_nodes [OF s(1), of "[1, 0]"] obtain s' where
    "fold_opt dist_step s [Poll 1 True, Poll 0 True] = Some s'"
    "snd (health (dist_coord s')) \<longrightarrow> (\<forall>n \<in> set (dist_nodes s). grpc_server n)"
    by auto
  then show ?thesis using s by (metis One_nat_def lessI nth_mem numeral_2_eq_2)
qed

end
