(* ===== verification/Lu_Solver.thy ===== *)
theory Lu_Solver
  imports Complex_Main Edge_Prelude
begin

text \<open>
  The dense solver \<^verbatim>\<open>vsc::lu_factor\<close> and \<^verbatim>\<open>vsc::lu_solve\<close>: Gaussian elimination with partial pivoting, and
  forward and back substitution. Arrays are functions of their indices and every assignment is an update;
  the template parameter is the argument \<open>n\<close>. Numbers are real numbers: rounding is not modelled.
\<close>

type_synonym vec = "nat \<Rightarrow> real"
type_synonym matrix = "nat \<Rightarrow> nat \<Rightarrow> real"

subsection \<open>Definitions\<close>

definition set_at :: "matrix \<Rightarrow> nat \<Rightarrow> nat \<Rightarrow> real \<Rightarrow> matrix" where
  "set_at A i j v = A(i := (A i)(j := v))"

definition find_pivot :: "nat \<Rightarrow> matrix \<Rightarrow> nat \<Rightarrow> nat \<times> real" where
  "find_pivot n A k =
     foldl (\<lambda>(p, best) i.
       let v = (if A i k < 0 then - A i k else A i k)
       in if best < v then (i, v) else (p, best)) (k, 0) [k..<n]"

definition swap_rows :: "nat \<Rightarrow> nat \<Rightarrow> nat \<Rightarrow> matrix \<Rightarrow> matrix" where
  "swap_rows n k p A =
     foldl (\<lambda>A j. let tmp = A k j; A = set_at A k j (A p j) in set_at A p j tmp) A [0..<n]"

definition eliminate_row :: "nat \<Rightarrow> nat \<Rightarrow> real \<Rightarrow> matrix \<Rightarrow> nat \<Rightarrow> matrix" where
  "eliminate_row n k recip A i =
     (let A = set_at A i k (A i k * recip)
      in foldl (\<lambda>A j. set_at A i j (A i j - A i k * A k j)) A [k + 1..<n])"

definition eliminate :: "nat \<Rightarrow> nat \<Rightarrow> matrix \<Rightarrow> matrix" where
  "eliminate n k A = (let recip = 1 / A k k in foldl (eliminate_row n k recip) A [k + 1..<n])"

text \<open>The arrays are changed in place, so they are part of the result also when the exception is thrown.\<close>

fun lu_columns :: "nat \<Rightarrow> nat list \<Rightarrow> matrix \<times> (nat \<Rightarrow> nat) \<Rightarrow> string option \<times> matrix \<times> (nat \<Rightarrow> nat)" where
  "lu_columns n [] s = (None, s)"
| "lu_columns n (k # ks) (A, pivot) =
     (case find_pivot n A k of
        (p, best) \<Rightarrow>
          if best < 1 / 10 ^ 15 then (Some ''LuSolver: singular matrix'', A, pivot)
          else
            let pivot = pivot(k := p);
                A = (if p \<noteq> k then swap_rows n k p A else A)
            in lu_columns n ks (eliminate n k A, pivot))"

definition lu_factor :: "nat \<Rightarrow> matrix \<times> (nat \<Rightarrow> nat) \<Rightarrow> string option \<times> matrix \<times> (nat \<Rightarrow> nat)" where
  "lu_factor n s = lu_columns n [0..<n] s"

definition apply_pivots :: "nat list \<Rightarrow> (nat \<Rightarrow> nat) \<Rightarrow> (nat \<Rightarrow> 'a) \<Rightarrow> (nat \<Rightarrow> 'a)" where
  "apply_pivots ks pivot y = foldl (\<lambda>y k. let tmp = y k; y = y(k := y (pivot k)) in y(pivot k := tmp)) y ks"

definition forward_in_place :: "nat \<Rightarrow> matrix \<Rightarrow> vec \<Rightarrow> vec" where
  "forward_in_place n LU y =
     foldl (\<lambda>y i. let s = foldl (\<lambda>s j. s - LU i j * y j) (y i) [0..<i] in y(i := s)) y [0..<n]"

definition back_substitution :: "nat \<Rightarrow> matrix \<Rightarrow> vec \<Rightarrow> vec \<Rightarrow> vec" where
  "back_substitution n LU y x =
     foldl (\<lambda>x i. let s = foldl (\<lambda>s j. s - LU i j * x j) (y i) [i + 1..<n] in x(i := s / LU i i)) x (rev [0..<n])"

definition lu_solve :: "nat \<Rightarrow> matrix \<Rightarrow> (nat \<Rightarrow> nat) \<Rightarrow> vec \<Rightarrow> vec \<Rightarrow> vec" where
  "lu_solve n LU pivot b x =
     (let y = foldl (\<lambda>y i. y(i := b i)) (\<lambda>_. 0) [0..<n];
          y = apply_pivots [0..<n] pivot y;
          y = forward_in_place n LU y
      in back_substitution n LU y x)"

subsection \<open>The loops\<close>

lemma set_at_apply [simp]: "set_at A i j v i' j' = (if i' = i \<and> j' = j then v else A i' j')"
  by (simp add: set_at_def)

lemma foldl_minus_sum: "foldl (\<lambda>s j. s - f j) s [a..<b] = s - (\<Sum>j = a..<b. f j :: real)"
  by (induction b) (auto simp: not_le)

lemma find_pivot_spec:
  assumes "find_pivot n A k = (p, best)" "k < n"
  shows "0 \<le> best" "k \<le> p" "p < n" "best = \<bar>A p k\<bar> \<or> best = 0" "\<forall>i \<in> {k..<n}. \<bar>A i k\<bar> \<le> best"
proof -
  let ?f = "\<lambda>(p, best) i. let v = (if A i k < 0 then - A i k else A i k) in if best < v then (i, v) else (p, best)"
  let ?ok = "\<lambda>m (p, best). 0 \<le> best \<and> k \<le> p \<and> (p = k \<or> p < m) \<and> (best = \<bar>A p k\<bar> \<or> best = 0) \<and> (\<forall>i \<in> {k..<m}. \<bar>A i k\<bar> \<le> best)"
  have "?ok m (foldl ?f (k, 0) [k..<m])" for m
  proof (induction m)
    case (Suc m)
    obtain q b where q: "foldl ?f (k, 0) [k..<m] = (q, b)" by fastforce
    show ?case
    proof (cases "k \<le> m")
      case True
      have nxt: "foldl ?f (k, 0) [k..<Suc m] = (if b < \<bar>A m k\<bar> then (m, \<bar>A m k\<bar>) else (q, b))"
        using q True by (simp add: Let_def abs_if)
      have old: "0 \<le> b" "k \<le> q" "q = k \<or> q < m" "b = \<bar>A q k\<bar> \<or> b = 0" "\<forall>i \<in> {k..<m}. \<bar>A i k\<bar> \<le> b"
        using Suc q by auto
      have "?ok (Suc m) (if b < \<bar>A m k\<bar> then (m, \<bar>A m k\<bar>) else (q, b))"
      proof (cases "b < \<bar>A m k\<bar>")
        case True
        then have "\<forall>i \<in> {k..<Suc m}. \<bar>A i k\<bar> \<le> \<bar>A m k\<bar>"
          using old(5) by (metis atLeastLessThan_iff less_Suc_eq less_imp_le order.trans order_refl)
        then show ?thesis using True \<open>k \<le> m\<close> by simp
      qed (use old in \<open>auto simp: less_Suc_eq\<close>)
      then show ?thesis by (simp only: nxt)
    qed (use Suc in simp)
  qed simp
  from this [of n] assms show "0 \<le> best" "k \<le> p" "p < n" "best = \<bar>A p k\<bar> \<or> best = 0" "\<forall>i \<in> {k..<n}. \<bar>A i k\<bar> \<le> best"
    by (auto simp: find_pivot_def)
qed

lemma swap_rows_apply:
  "swap_rows n k p A i j = (if j < n then (if i = k then A p j else if i = p then A k j else A i j) else A i j)"
proof -
  let ?f = "\<lambda>A j. let tmp = A k j; A = set_at A k j (A p j) in set_at A p j tmp"
  have "foldl ?f A [0..<m] i j = (if j < m then (if i = k then A p j else if i = p then A k j else A i j) else A i j)" for m i j
    by (induction m arbitrary: i j) (auto simp: Let_def)
  then show ?thesis by (simp add: swap_rows_def)
qed

lemma eliminate_row_apply:
  assumes "i \<noteq> k"
  shows "eliminate_row n k recip A i i' j' =
    (if i' = i then if j' = k then A i k * recip
                    else if k < j' \<and> j' < n then A i j' - A i k * recip * A k j' else A i j'
     else A i' j')"
proof -
  have "foldl (\<lambda>A j. set_at A i j (A i j - A i k * A k j)) B [k + 1..<m] i' j' =
      (if i' = i \<and> k < j' \<and> j' < m then B i j' - B i k * B k j' else B i' j')" for B m i' j'
    using assms by (induction m arbitrary: i' j') (auto simp: less_Suc_eq)
  then show ?thesis using assms by (auto simp: eliminate_row_def)
qed

lemma eliminate_apply:
  "eliminate n k A i j =
    (if k < i \<and> i < n then if j = k then A i k / A k k
                           else if k < j \<and> j < n then A i j - A i k / A k k * A k j else A i j
     else A i j)"
proof -
  have "foldl (eliminate_row n k recip) A [k + 1..<m] i j =
      (if k < i \<and> i < m then if j = k then A i k * recip
                             else if k < j \<and> j < n then A i j - A i k * recip * A k j else A i j
       else A i j)" for recip m i j
    by (induction m arbitrary: i j) (auto simp: eliminate_row_apply less_Suc_eq)
  then show ?thesis by (simp add: eliminate_def)
qed

lemma copy_apply: "foldl (\<lambda>y i. y(i := b i)) y [0..<n] i = (if i < n then b i else y i)"
  by (induction n) auto

lemma apply_pivots_simps [simp]:
  "apply_pivots [] pivot y = y"
  "apply_pivots (ks @ [k]) pivot y = (apply_pivots ks pivot y)(k := apply_pivots ks pivot y (pivot k), pivot k := apply_pivots ks pivot y k)"
  by (simp_all add: apply_pivots_def)

lemma forward_in_place_spec:
  assumes "i < n"
  shows "forward_in_place n LU y i = y i - (\<Sum>j = 0..<i. LU i j * forward_in_place n LU y j)"
proof -
  define Y where "Y m = foldl (\<lambda>y i. let s = foldl (\<lambda>s j. s - LU i j * y j) (y i) [0..<i] in y(i := s)) y [0..<m]" for m
  have Y_simps: "Y 0 = y" "Y (Suc m) = (Y m)(m := Y m m - (\<Sum>j = 0..<m. LU m j * Y m j))" for m
    by (simp_all add: Y_def Let_def foldl_minus_sum)
  have later: "i \<ge> m \<Longrightarrow> Y m i = y i" for m i
    by (induction m) (auto simp: Y_simps)
  have "i < m \<Longrightarrow> Y m i = y i - (\<Sum>j = 0..<i. LU i j * Y m j)" for m i
  proof (induction m arbitrary: i)
    case (Suc m)
    show ?case
      using Suc by (cases "i = m") (simp_all add: Y_simps later)
  qed simp
  then show ?thesis using assms by (simp add: forward_in_place_def Y_def)
qed

lemma back_substitution_spec:
  assumes "i < n" "LU i i \<noteq> 0"
  shows "(\<Sum>j = i..<n. LU i j * back_substitution n LU y x j) = y i"
proof -
  define X where "X m = foldl (\<lambda>x i. let s = foldl (\<lambda>s j. s - LU i j * x j) (y i) [i + 1..<n] in x(i := s / LU i i)) x (rev [m..<n])" for m
  have x_step: "X m = (X (Suc m))(m := (y m - (\<Sum>j = Suc m..<n. LU m j * X (Suc m) j)) / LU m m)" if "m < n" for m
    using that by (simp add: X_def upt_conv_Cons Let_def foldl_minus_sum)
  have "m \<le> i \<Longrightarrow> X m i = (y i - (\<Sum>j = Suc i..<n. LU i j * X m j)) / LU i i" for m
  proof (induction m rule: inc_induct)
    case base
    have "X i j = X (Suc i) j" if "j \<in> {Suc i..<n}" for j using that x_step [OF assms(1)] by simp
    then show ?case using x_step [OF assms(1)] by simp
  next
    case (step m)
    have "m < n" using step.hyps assms(1) by simp
    have "X m j = X (Suc m) j" if "i \<le> j" for j
      using \<open>m < i\<close> that by (simp add: x_step [OF \<open>m < n\<close>])
    then show ?case using step.IH by simp
  qed
  then show ?thesis
    using assms by (simp add: back_substitution_def X_def sum.atLeast_Suc_lessThan)
qed

subsection \<open>The factorisation\<close>

definition L_of :: "matrix \<Rightarrow> matrix" where
  "L_of A i m = (if m < i then A i m else if m = i then 1 else 0)"

definition U_of :: "matrix \<Rightarrow> matrix" where
  "U_of A m j = (if m \<le> j then A m j else 0)"

text \<open>What holds of the array after \<open>k\<close> columns, for the matrix \<open>B\<close> with its rows swapped so far.\<close>

definition partial_lu :: "nat \<Rightarrow> nat \<Rightarrow> matrix \<Rightarrow> matrix \<Rightarrow> bool" where
  "partial_lu n k B A \<longleftrightarrow>
     (\<forall>i < n. \<forall>j < n. B i j = (\<Sum>m = 0..<min i (min j k). A i m * A m j) + A i j * (if j < i \<and> j < k then A j j else 1)) \<and>
     (\<forall>m < k. A m m \<noteq> 0)"

lemma partial_lu_start: "partial_lu n 0 B B"
  by (simp add: partial_lu_def)

lemma partial_luD:
  "partial_lu n k B A \<Longrightarrow> i < n \<Longrightarrow> j < n \<Longrightarrow>
     B i j = (\<Sum>m = 0..<min i (min j k). A i m * A m j) + A i j * (if j < i \<and> j < k then A j j else 1)"
  "partial_lu n k B A \<Longrightarrow> m < k \<Longrightarrow> A m m \<noteq> 0"
  by (simp_all add: partial_lu_def)

lemma partial_lu_swap:
  assumes "partial_lu n k B A" "k \<le> p" "p < n" "k < n"
  shows "partial_lu n k (B(k := B p, p := B k)) (if p \<noteq> k then swap_rows n k p A else A)"
proof (cases "p = k")
  case False
  let ?A = "swap_rows n k p A"
  define s where "s i = (if i = k then p else if i = p then k else i)" for i
  have sw: "?A i j = A (s i) j" if "j < n" for i j
    using that False by (simp add: swap_rows_apply s_def)
  have low: "?A m j = A m j" if "m < k" "j < n" for m j
    using that assms(2) by (simp add: swap_rows_apply)
  have "(B(k := B p, p := B k)) i j =
      (\<Sum>m = 0..<min i (min j k). ?A i m * ?A m j) + ?A i j * (if j < i \<and> j < k then ?A j j else 1)"
    if ij: "i < n" "j < n" for i j
  proof -
    have "(B(k := B p, p := B k)) i j = B (s i) j" using False by (simp add: s_def)
    also have "\<dots> = (\<Sum>m = 0..<min (s i) (min j k). A (s i) m * A m j) + A (s i) j * (if j < s i \<and> j < k then A j j else 1)"
      using assms(3,4) ij by (intro partial_luD(1) [OF assms(1)]) (simp_all add: s_def)
    also have "min (s i) (min j k) = min i (min j k)" using assms(2) by (simp add: s_def)
    also have "(\<Sum>m = 0..<min i (min j k). A (s i) m * A m j) = (\<Sum>m = 0..<min i (min j k). ?A i m * ?A m j)"
    proof (rule sum.cong)
      show "A (s i) m * A m j = ?A i m * ?A m j" if "m \<in> {0..<min i (min j k)}" for m
        using that ij low [of m j] sw [of m i] by simp
    qed simp
    also have "(if j < s i \<and> j < k then A j j else 1) = (if j < i \<and> j < k then ?A j j else 1)"
      using assms(2) ij by (auto simp: s_def low)
    finally show ?thesis using ij by (simp only: sw)
  qed
  moreover have "?A m m \<noteq> 0" if "m < k" for m
    using that assms(4) partial_luD(2) [OF assms(1) that] by (simp add: low)
  ultimately show ?thesis using False by (simp add: partial_lu_def)
qed (use assms in simp)

lemma partial_lu_eliminate:
  assumes "partial_lu n k B A" "k < n" "A k k \<noteq> 0"
  shows "partial_lu n (Suc k) B (eliminate n k A)"
proof -
  let ?E = "eliminate n k A"
  have up: "?E m j = A m j" if "m \<le> k" for m j using that by (simp add: eliminate_apply)
  have left: "?E i m = A i m" if "m < k" for i m using that by (simp add: eliminate_apply)
  have old: "B i j = (\<Sum>m = 0..<min i (min j k). A i m * A m j) + A i j * (if j < i \<and> j < k then A j j else 1)"
    if "i < n" "j < n" for i j using that by (rule partial_luD(1) [OF assms(1)])
  have "B i j = (\<Sum>m = 0..<min i (min j (Suc k)). ?E i m * ?E m j) + ?E i j * (if j < i \<and> j < Suc k then ?E j j else 1)"
    if ij: "i < n" "j < n" for i j
  proof (cases "i \<le> k \<or> j \<le> k")
    case True
    have "min i (min j (Suc k)) = min i (min j k)" using True by auto
    moreover have "(\<Sum>m = 0..<min i (min j k). ?E i m * ?E m j) = (\<Sum>m = 0..<min i (min j k). A i m * A m j)"
      by (intro sum.cong) (auto simp: up left)
    ultimately show ?thesis
      using True old [OF ij] ij assms(3) by (auto simp: up eliminate_apply less_Suc_eq)
  next
    case False
    have "(\<Sum>m = 0..<k. ?E i m * ?E m j) = (\<Sum>m = 0..<k. A i m * A m j)"
      by (intro sum.cong) (auto simp: up left)
    then show ?thesis
      using False old [OF ij] ij by (simp add: eliminate_apply)
  qed
  moreover have "?E m m \<noteq> 0" if "m < Suc k" for m
    using that assms(3) partial_luD(2) [OF assms(1)] by (auto simp: up less_Suc_eq)
  ultimately show ?thesis by (simp add: partial_lu_def)
qed

lemma lu_columns_correct:
  assumes "lu_columns n [k..<n] (A, piv) = (None, LU, pivot)" "partial_lu n k (apply_pivots [0..<k] piv B) A" "k \<le> n"
  shows "partial_lu n n (apply_pivots [0..<n] pivot B) LU \<and> (\<forall>m < k. pivot m = piv m) \<and> (\<forall>m \<in> {k..<n}. pivot m < n)"
  using assms
proof (induction "n - k" arbitrary: k A piv)
  case (Suc d)
  then have k: "k < n" by simp
  obtain p best where fp: "find_pivot n A k = (p, best)" by fastforce
  let ?A = "if p \<noteq> k then swap_rows n k p A else A"
  let ?B = "apply_pivots [0..<k] piv B"
  have best: "1 / 10 ^ 15 \<le> best" and rest: "lu_columns n [Suc k..<n] (eliminate n k ?A, piv(k := p)) = (None, LU, pivot)"
    using Suc.prems(1) k fp by (auto simp: upt_conv_Cons Let_def split: if_splits)
  note fps = find_pivot_spec [OF fp k]
  have "0 < best" using best by (rule order.strict_trans2 [rotated]) simp
  then have nz: "?A k k \<noteq> 0" using fps(4) k by (auto simp: swap_rows_apply)
  have same: "apply_pivots [0..<k] (piv(k := p)) B = ?B"
    unfolding apply_pivots_def by (intro foldl_cong) auto
  have "partial_lu n (Suc k) (?B(k := ?B p, p := ?B k)) (eliminate n k ?A)"
    by (rule partial_lu_eliminate [OF partial_lu_swap [OF Suc.prems(2) fps(2,3) k] k nz])
  then have "partial_lu n (Suc k) (apply_pivots [0..<Suc k] (piv(k := p)) B) (eliminate n k ?A)"
    by (simp add: same)
  moreover have "d = n - Suc k" "Suc k \<le> n" using Suc.hyps(2) k by simp_all
  ultimately have "partial_lu n n (apply_pivots [0..<n] pivot B) LU \<and> (\<forall>m < Suc k. pivot m = (piv(k := p)) m) \<and> (\<forall>m \<in> {Suc k..<n}. pivot m < n)"
    by (intro Suc.hyps(1) [OF _ rest])
  then have IH: "partial_lu n n (apply_pivots [0..<n] pivot B) LU" "\<forall>m < Suc k. pivot m = (piv(k := p)) m"
      "\<forall>m \<in> {Suc k..<n}. pivot m < n"
    by blast+
  have "pivot k = p" using IH(2) by simp
  then have "\<forall>m \<in> {k..<n}. pivot m < n"
    using IH(3) fps(3) by (auto simp: Suc_le_eq order.order_iff_strict)
  then show ?case using IH(1,2) by (simp add: less_Suc_eq)
qed simp

lemma lu_factor_correct:
  assumes "lu_factor n (A, piv) = (None, LU, pivot)"
  shows "partial_lu n n (apply_pivots [0..<n] pivot A) LU" "\<forall>m < n. pivot m < n"
  using lu_columns_correct [of n 0 A piv LU pivot A] assms by (auto simp: lu_factor_def partial_lu_start)

lemma partial_lu_product:
  assumes "partial_lu n n B A" "i < n" "j < n"
  shows "B i j = (\<Sum>m = 0..<n. L_of A i m * U_of A m j)"
proof -
  let ?t = "\<lambda>m. L_of A i m * U_of A m j"
  have "(\<Sum>m = 0..<n. ?t m) = (\<Sum>m = 0..<Suc (min i j). ?t m)"
    using assms by (intro sum.mono_neutral_right) (auto simp: L_of_def U_of_def)
  also have "\<dots> = (\<Sum>m = 0..<min i j. A i m * A m j) + ?t (min i j)"
    by (simp add: L_of_def U_of_def)
  also have "\<dots> = B i j"
    using assms by (auto simp: partial_lu_def L_of_def U_of_def min_def)
  finally show ?thesis by simp
qed

lemma pivoted_system:
  assumes "\<forall>k \<in> set ks. k < n \<and> pivot k < n"
    and "\<forall>i < n. (\<Sum>j = 0..<n. apply_pivots ks pivot A i j * x j) = apply_pivots ks pivot b i" "i < n"
  shows "(\<Sum>j = 0..<n. A i j * x j) = (b i :: real)"
  using assms
proof (induction ks arbitrary: i rule: rev_induct)
  case (snoc k ks)
  let ?A = "apply_pivots ks pivot A" and ?b = "apply_pivots ks pivot b" and ?p = "pivot k"
  have eq: "(\<Sum>j = 0..<n. (?A(k := ?A ?p, ?p := ?A k)) i j * x j) = (?b(k := ?b ?p, ?p := ?b k)) i" if "i < n" for i
    using snoc.prems(2) that by simp
  have "(\<Sum>j = 0..<n. ?A i j * x j) = ?b i" if "i < n" for i
    using eq [of k] eq [of ?p] eq [of i] that snoc.prems(1) by (cases "i = k"; cases "i = ?p") auto
  then have "\<forall>i < n. (\<Sum>j = 0..<n. ?A i j * x j) = ?b i" by blast
  moreover have "\<forall>k \<in> set ks. k < n \<and> pivot k < n" using snoc.prems(1) by simp
  ultimately show ?case using snoc.IH snoc.prems(3) by blast
qed simp

lemma triangular_solve:
  fixes L U :: matrix and b x y :: vec
  assumes "\<And>i. i < n \<Longrightarrow> y i = b i - (\<Sum>j = 0..<i. L i j * y j)"
    and "\<And>i. i < n \<Longrightarrow> (\<Sum>j = i..<n. U i j * x j) = y i" and "i < n"
  shows "(\<Sum>j = 0..<n. (\<Sum>m = 0..<n. (if m < i then L i m else if m = i then 1 else 0) * (if m \<le> j then U m j else 0)) * x j) = b i"
proof -
  let ?L = "\<lambda>m. if m < i then L i m else if m = i then 1 else 0" and ?U = "\<lambda>m j. if m \<le> j then U m j else 0"
  have row: "(\<Sum>j = 0..<n. ?U m j * x j) = y m" if "m < n" for m
  proof -
    have "(\<Sum>j = 0..<n. ?U m j * x j) = (\<Sum>j = m..<n. ?U m j * x j)"
      by (intro sum.mono_neutral_right) auto
    then show ?thesis using assms(2) [OF that] by simp
  qed
  have "(\<Sum>j = 0..<n. (\<Sum>m = 0..<n. ?L m * ?U m j) * x j) = (\<Sum>j = 0..<n. \<Sum>m = 0..<n. ?L m * (?U m j * x j))"
    by (simp add: sum_distrib_right mult.assoc)
  also have "\<dots> = (\<Sum>m = 0..<n. ?L m * (\<Sum>j = 0..<n. ?U m j * x j))"
    by (subst sum.swap) (simp add: sum_distrib_left)
  also have "\<dots> = (\<Sum>m = 0..<n. ?L m * y m)" using row by (intro sum.cong) auto
  also have "\<dots> = (\<Sum>m = 0..<Suc i. ?L m * y m)"
    using assms(3) by (intro sum.mono_neutral_right) auto
  also have "\<dots> = b i" using assms(1) [OF assms(3)] by simp
  finally show ?thesis .
qed

lemma lu_solve_solves:
  assumes "lu_factor n (A, piv) = (None, LU, pivot)" "i < n"
  shows "(\<Sum>j = 0..<n. A i j * lu_solve n LU pivot b x j) = b i"
proof -
  note f = lu_factor_correct [OF assms(1)]
  let ?b = "foldl (\<lambda>y i. y(i := b i)) (\<lambda>_. 0) [0..<n]"
  let ?B = "apply_pivots [0..<n] pivot A" and ?y = "forward_in_place n LU (apply_pivots [0..<n] pivot ?b)"
  let ?x = "lu_solve n LU pivot b x"
  have x: "?x = back_substitution n LU ?y x" by (simp add: lu_solve_def Let_def)
  have "(\<Sum>j = 0..<n. ?B i j * ?x j) = apply_pivots [0..<n] pivot ?b i" if i: "i < n" for i
  proof -
    have "(\<Sum>j = 0..<n. ?B i j * ?x j) = (\<Sum>j = 0..<n. (\<Sum>m = 0..<n. L_of LU i m * U_of LU m j) * ?x j)"
      using i partial_lu_product [OF f(1)] by (intro sum.cong) auto
    also have "\<dots> = apply_pivots [0..<n] pivot ?b i"
      unfolding L_of_def U_of_def
    proof (rule triangular_solve [OF _ _ i])
      show "(\<Sum>j = m..<n. LU m j * ?x j) = ?y m" if "m < n" for m
        unfolding x using that f(1) by (intro back_substitution_spec) (auto simp: partial_lu_def)
    qed (rule forward_in_place_spec)
    finally show ?thesis .
  qed
  then have "\<forall>i < n. (\<Sum>j = 0..<n. ?B i j * ?x j) = apply_pivots [0..<n] pivot ?b i" by blast
  then have "(\<Sum>j = 0..<n. A i j * ?x j) = ?b i"
    by (rule pivoted_system [rotated]) (use f(2) assms(2) in simp_all)
  then show ?thesis using assms(2) by (simp add: copy_apply)
qed

subsection \<open>Diagonally dominant matrices\<close>

text \<open>
  In a matrix whose diagonal exceeds the other entries of its column by at least \<open>d\<close>, elimination keeps
  this so, chooses every pivot on the diagonal and never reports a singular matrix.
\<close>

definition dominant :: "real \<Rightarrow> nat \<Rightarrow> nat \<Rightarrow> matrix \<Rightarrow> bool" where
  "dominant d n k A \<longleftrightarrow> (\<forall>j \<in> {k..<n}. d + (\<Sum>i \<in> {k..<n} - {j}. \<bar>A i j\<bar>) \<le> A j j)"

lemma dominantD: "dominant d n k A \<Longrightarrow> j \<in> {k..<n} \<Longrightarrow> d + (\<Sum>i \<in> {k..<n} - {j}. \<bar>A i j\<bar>) \<le> A j j"
  unfolding dominant_def by (rule bspec)

lemma dominant_entry:
  assumes "dominant d n k A" "j \<in> {k..<n}" "i \<in> {k..<n} - {j}"
  shows "d + \<bar>A i j\<bar> \<le> A j j"
proof -
  have "\<bar>A i j\<bar> \<le> (\<Sum>i \<in> {k..<n} - {j}. \<bar>A i j\<bar>)"
    using assms(3) by (intro member_le_sum) auto
  then show ?thesis using dominantD [OF assms(1,2)] by linarith
qed

lemma dominant_diagonal:
  assumes "dominant d n k A" "j \<in> {k..<n}"
  shows "d \<le> A j j"
proof -
  have "0 \<le> (\<Sum>i \<in> {k..<n} - {j}. \<bar>A i j\<bar>)" by (rule sum_nonneg) simp
  then show ?thesis using dominantD [OF assms] by linarith
qed

lemma dominant_find_pivot:
  assumes "dominant d n k A" "0 < d" "k < n"
  shows "find_pivot n A k = (k, A k k)"
proof -
  have "m \<ge> Suc k \<Longrightarrow> m \<le> n \<Longrightarrow> foldl (\<lambda>(p, best) i. let v = (if A i k < 0 then - A i k else A i k)
      in if best < v then (i, v) else (p, best)) (k, 0) [k..<m] = (k, A k k)" for m
  proof (induction m rule: dec_induct)
    case base
    have "0 < A k k" using dominant_diagonal [OF assms(1)] assms(2,3) by fastforce
    then show ?case by (simp add: Let_def)
  next
    case (step m)
    have "\<bar>A m k\<bar> \<le> A k k"
      using dominant_entry [OF assms(1), of k m] step.hyps step.prems assms(2,3) by simp
    then show ?case using step by (auto simp: Let_def)
  qed
  then show ?thesis using assms(3) by (simp add: find_pivot_def)
qed

lemma dominant_eliminate:
  assumes dom: "dominant d n k A" and "0 < d" "k < n"
  shows "dominant d n (Suc k) (eliminate n k A)"
  unfolding dominant_def
proof
  fix j assume j: "j \<in> {Suc k..<n}"
  let ?S = "{Suc k..<n} - {j}" and ?E = "eliminate n k A" and ?q = "\<bar>A k j\<bar> / A k k"
  have pos: "0 < A k k" using dominant_diagonal [OF dom] assms(2,3) by fastforce
  have "\<bar>?E i j\<bar> \<le> \<bar>A i j\<bar> + ?q * \<bar>A i k\<bar>" if "i \<in> ?S" for i
    using that j pos abs_triangle_ineq4 [of "A i j" "A i k / A k k * A k j"] by (simp add: eliminate_apply abs_mult mult.commute)
  then have "(\<Sum>i \<in> ?S. \<bar>?E i j\<bar>) \<le> (\<Sum>i \<in> ?S. \<bar>A i j\<bar> + ?q * \<bar>A i k\<bar>)" by (rule sum_mono)
  then have le: "(\<Sum>i \<in> ?S. \<bar>?E i j\<bar>) \<le> (\<Sum>i \<in> ?S. \<bar>A i j\<bar>) + ?q * (\<Sum>i \<in> ?S. \<bar>A i k\<bar>)"
    by (simp only: sum.distrib sum_distrib_left)
  have sets: "{k..<n} - {j} = insert k ?S" "{k..<n} - {k} = insert j ?S" using j assms(3) by auto
  have cols: "d + \<bar>A k j\<bar> + (\<Sum>i \<in> ?S. \<bar>A i j\<bar>) \<le> A j j" "d + \<bar>A j k\<bar> + (\<Sum>i \<in> ?S. \<bar>A i k\<bar>) \<le> A k k"
    using dominantD [OF dom, of j] dominantD [OF dom, of k] j assms(3) unfolding sets by (simp_all del: insert_Diff_single)
  have "?q * (\<Sum>i \<in> ?S. \<bar>A i k\<bar>) \<le> ?q * (A k k - \<bar>A j k\<bar>)"
    using cols(2) assms(2) pos by (intro mult_left_mono) auto
  also have "\<dots> = \<bar>A k j\<bar> - \<bar>A j k / A k k * A k j\<bar>"
    using pos by (simp add: field_simps abs_mult)
  finally have "?q * (\<Sum>i \<in> ?S. \<bar>A i k\<bar>) \<le> \<bar>A k j\<bar> - A j k / A k k * A k j" by linarith
  moreover have "?E j j = A j j - A j k / A k k * A k j" using j by (simp add: eliminate_apply)
  ultimately show "d + (\<Sum>i \<in> ?S. \<bar>?E i j\<bar>) \<le> ?E j j" using cols(1) le by linarith
qed

lemma dominant_lu_columns:
  assumes "dominant d n k A" "1 / 10 ^ 15 \<le> d" "k \<le> n"
  shows "\<exists>LU pivot. lu_columns n [k..<n] (A, piv) = (None, LU, pivot) \<and> (\<forall>m \<in> {k..<n}. pivot m = m) \<and> (\<forall>m < k. pivot m = piv m)"
  using assms(1,3)
proof (induction "n - k" arbitrary: k A piv)
  case (Suc e)
  then have k: "k < n" by simp
  have d: "0 < d" using assms(2) by (rule order.strict_trans2 [rotated]) simp
  have "1 / 10 ^ 15 \<le> A k k" using dominant_diagonal [OF Suc.prems(1)] k assms(2) by fastforce
  then have "lu_columns n [k..<n] (A, piv) = lu_columns n [Suc k..<n] (eliminate n k A, piv(k := k))"
    using dominant_find_pivot [OF Suc.prems(1) d k] k by (simp add: upt_conv_Cons)
  moreover obtain LU pivot where "lu_columns n [Suc k..<n] (eliminate n k A, piv(k := k)) = (None, LU, pivot)"
      "\<forall>m \<in> {Suc k..<n}. pivot m = m" "\<forall>m < Suc k. pivot m = (piv(k := k)) m"
    using Suc.hyps(1) [OF _ dominant_eliminate [OF Suc.prems(1) d k], of "piv(k := k)"] Suc.hyps(2) k by force
  ultimately show ?case by (auto simp: less_Suc_eq Suc_le_eq order.order_iff_strict)
qed simp

lemma dominant_lu_factor:
  assumes "dominant d n 0 A" "1 / 10 ^ 15 \<le> d"
  obtains LU pivot where "lu_factor n (A, piv) = (None, LU, pivot)" "\<forall>m < n. pivot m = m"
  using dominant_lu_columns [OF assms, of piv] by (auto simp: lu_factor_def)

subsection \<open>Properties\<close>

text \<open>
  C7. The solver solves: whenever the factorisation succeeds, whatever the pivots, the result of the
  substitution satisfies every equation of the original system.\<close>

theorem lu_factor_and_solve:
  assumes "lu_factor n (A, piv0) = (None, LU, pivot)"
  shows "\<forall>i < n. (\<Sum>j = 0..<n. A i j * lu_solve n LU pivot b x j) = b i"
  using lu_solve_solves [OF assms] by blast

theorem lu_factor_and_solve_witness:
  "\<exists>LU pivot. lu_factor 2 (\<lambda>i j. if i = j then 0 else real (i + 1), \<lambda>_. 0) = (None, LU, pivot) \<and> pivot 0 = 1 \<and>
     (\<Sum>j = 0..<2. (if 0 = j then 0 else real (0 + 1)) * lu_solve 2 LU pivot (\<lambda>i. real i + 5) (\<lambda>_. 0) j) = 5"
proof -
  let ?A = "\<lambda>i j. if i = j then 0 else real (i + 1)"
  have fp: "find_pivot 2 ?A 0 = (1, 2)" by (simp add: find_pivot_def upt_rec)
  let ?A1 = "eliminate 2 0 (swap_rows 2 0 1 ?A)"
  have "?A1 1 1 = 1" by (simp add: eliminate_apply swap_rows_apply)
  then have fp1: "find_pivot 2 ?A1 1 = (1, 1)" by (simp add: find_pivot_def upt_rec)
  have "[0..<2] = [0, 1 :: nat]" by (simp add: upt_rec)
  then have "lu_factor 2 (?A, \<lambda>_. 0) = (None, eliminate 2 1 ?A1, (\<lambda>_. 0)(0 := 1, 1 := 1))"
    using fp1 by (simp add: lu_factor_def fp)
  moreover from lu_factor_and_solve [OF this, of "\<lambda>i. real i + 5" "\<lambda>_. 0", rule_format, of 0]
  have "(\<Sum>j = 0..<2. ?A 0 j * lu_solve 2 (eliminate 2 1 ?A1) ((\<lambda>_. 0)(0 := 1, 1 := 1)) (\<lambda>i. real i + 5) (\<lambda>_. 0) j) = 5" by simp
  ultimately show ?thesis by simp
qed

end
