(* ===== verification/Vsc_Network.thy ===== *)
theory Vsc_Network
  imports Lu_Solver Doubles
begin

text \<open>
  \<^verbatim>\<open>vsc::VscNetwork\<close>: the nine-node model of a three-phase converter with filter and grid, advanced by the
  trapezoidal rule. Branches are stamped into the conductance matrix, which is factorised whenever the
  switches change. Numbers are real numbers, and \<^verbatim>\<open>std::sin\<close> and \<^verbatim>\<open>std::sqrt\<close> the functions of that name.
\<close>

unbundle bit_operations_syntax

subsection \<open>NortonUpdate\<close>

record norton_inductor =
  G_eq :: real
  beta :: real

record norton_capacitor =
  G_C :: real

definition make_inductor :: "real \<Rightarrow> real \<Rightarrow> real \<Rightarrow> norton_inductor" where
  "make_inductor L R h = (let denom = 2 * L + R * h in \<lparr>G_eq = h / denom, beta = (2 * L - R * h) / denom\<rparr>)"

definition make_capacitor :: "real \<Rightarrow> real \<Rightarrow> norton_capacitor" where
  "make_capacitor C h = \<lparr>G_C = 2 * C / h\<rparr>"

definition inductor_history :: "norton_inductor \<Rightarrow> real \<Rightarrow> real \<Rightarrow> real" where
  "inductor_history n i_L v_branch = G_eq n * v_branch + beta n * i_L"

definition capacitor_history :: "norton_capacitor \<Rightarrow> real \<Rightarrow> real \<Rightarrow> real" where
  "capacitor_history n i_C v_node = - i_C - G_C n * v_node"

subsection \<open>VscNetwork\<close>

record solver_params =
  dt :: real
  L_f :: real
  R_f :: real
  C_f :: real
  L_grid :: real
  R_grid :: real
  C_snub :: real
  V_dc :: real
  V_grid_rms :: real
  f_grid :: real
  G_on :: real
  G_off :: real
  V_rated :: real
  R_src :: real

definition default_params :: solver_params where
  "default_params =
     \<lparr>dt = 50 / 10 ^ 6, L_f = 3 / 10 ^ 3, R_f = 1 / 10, C_f = 20 / 10 ^ 6, L_grid = 1 / 10 ^ 3, R_grid = 5 / 100,
      C_snub = 1 / 10 ^ 7, V_dc = 400, V_grid_rms = 230, f_grid = 50, G_on = 100, G_off = 1 / 10 ^ 6,
      V_rated = 400, R_src = 1 / 100\<rparr>"

record vsc_state =
  nodal_v :: vec
  i_Lf :: vec
  i_Cf :: vec
  i_Lgrid :: vec
  I_Lf_hist :: vec
  I_Cf_hist :: vec
  I_Lgrid_hist :: vec
  I_snub_hist :: vec
  sim_time :: real
  gate_bits :: u8
  fault_seen :: bool

definition vsc_state_new :: vsc_state where
  "vsc_state_new =
     \<lparr>nodal_v = \<lambda>_. 0, i_Lf = \<lambda>_. 0, i_Cf = \<lambda>_. 0, i_Lgrid = \<lambda>_. 0, I_Lf_hist = \<lambda>_. 0, I_Cf_hist = \<lambda>_. 0,
      I_Lgrid_hist = \<lambda>_. 0, I_snub_hist = \<lambda>_. 0, sim_time = 0, gate_bits = 0, fault_seen = False\<rparr>"

record vsc_network =
  params :: solver_params
  G_total :: matrix
  LU_total :: matrix
  piv :: "nat \<Rightarrow> nat"
  gate_factored :: u8

text \<open>The other node of a branch is \<^const>\<open>None\<close> for the ground (index \<^verbatim>\<open>-1\<close>).\<close>

definition stamp :: "matrix \<Rightarrow> nat \<Rightarrow> nat option \<Rightarrow> real \<Rightarrow> matrix" where
  "stamp G p m g =
     (let G = set_at G p p (G p p + g)
      in case m of
           None \<Rightarrow> G
         | Some m \<Rightarrow>
             let G = set_at G m m (G m m + g);
                 G = set_at G p m (G p m - g)
             in set_at G m p (G m p - g))"

definition igbt_on :: "u8 \<Rightarrow> nat \<Rightarrow> bool" where
  "igbt_on gate b \<longleftrightarrow> drop_bit b gate AND 1 \<noteq> 0"

definition G_igbt :: "solver_params \<Rightarrow> u8 \<Rightarrow> nat \<Rightarrow> real" where
  "G_igbt p gate b = (if igbt_on gate b then G_on p else G_off p)"

definition assemble :: "solver_params \<Rightarrow> u8 \<Rightarrow> matrix" where
  "assemble p gate =
     (let G = (\<lambda>_ _. 0);
          n_Lf = make_inductor (L_f p) (R_f p) (dt p);
          G = foldl (\<lambda>G k. stamp G k (Some (k + 3)) (G_eq n_Lf)) G [0..<3];
          n_Cf = make_capacitor (C_f p) (dt p);
          G = foldl (\<lambda>G k. stamp G k None (G_C n_Cf)) G [3..<6];
          n_Lgrid = make_inductor (L_grid p) (R_grid p) (dt p);
          G = foldl (\<lambda>G k. stamp G (k + 3) (Some (k + 6)) (G_eq n_Lgrid)) G [0..<3];
          G_vs = 1 / R_src p;
          G = foldl (\<lambda>G k. stamp G k None G_vs) G [6..<9]
      in foldl (\<lambda>G k. stamp G k None (G_igbt p gate (2 * k) + G_igbt p gate (2 * k + 1))) G [0..<3])"

text \<open>The message of the exception, if the factorisation throws; the gate is then not recorded.\<close>

definition assemble_and_factor :: "u8 \<Rightarrow> vsc_network \<Rightarrow> string option \<times> vsc_network" where
  "assemble_and_factor gate net =
     (let net = net\<lparr>G_total := assemble (params net) gate\<rparr>
      in case lu_factor 9 (G_total net, piv net) of
           (err, LU, pv) \<Rightarrow>
             let net = net\<lparr>LU_total := LU, piv := pv\<rparr>
             in case err of
                  Some e \<Rightarrow> (Some e, net)
                | None \<Rightarrow> (None, net\<lparr>gate_factored := gate\<rparr>))"

definition vsc_new :: "solver_params \<Rightarrow> string option \<times> vsc_network" where
  "vsc_new p =
     assemble_and_factor 0
       \<lparr>params = p, G_total = \<lambda>_ _. 0, LU_total = \<lambda>_ _. 0, piv = \<lambda>_. 0, gate_factored = 0xFF\<rparr>"

definition v_src :: "solver_params \<Rightarrow> real \<Rightarrow> nat \<Rightarrow> real" where
  "v_src p t k =
     (let phase_offset = real k * (- 2 * M_PI / 3);
          V_grid_peak = V_grid_rms p * sqrt 2
      in V_grid_peak * sin (2 * M_PI * f_grid p * t + phase_offset))"

definition injections :: "solver_params \<Rightarrow> vsc_state \<Rightarrow> u8 \<Rightarrow> vec" where
  "injections p s gate =
     foldl (\<lambda>I k.
       let I = I(k := I k - I_Lf_hist s k);
           I = I(k + 3 := I (k + 3) + I_Lf_hist s k);
           I = I(k + 3 := I (k + 3) - I_Cf_hist s k);
           I = I(k + 3 := I (k + 3) - I_Lgrid_hist s k);
           I = I(k + 6 := I (k + 6) + I_Lgrid_hist s k);
           I = I(k + 6 := I (k + 6) + (1 / R_src p) * v_src p (sim_time s) k)
       in I(k := I k + G_igbt p gate (2 * k) * V_dc p)) (\<lambda>_. 0) [0..<3]"

text \<open>The loop of the fault detection leaves at the first voltage out of range.\<close>

fun detect_fault :: "real \<Rightarrow> vec \<Rightarrow> nat list \<Rightarrow> bool" where
  "detect_fault limit V [] = False"
| "detect_fault limit V (i # is) =
     (let absV = (if V i < 0 then - V i else V i) in if limit < absV then True else detect_fault limit V is)"

definition update_branches :: "solver_params \<Rightarrow> vec \<Rightarrow> vsc_state \<Rightarrow> nat \<Rightarrow> vsc_state" where
  "update_branches p V s k =
     (let n_Lf = make_inductor (L_f p) (R_f p) (dt p);
          n_Cf = make_capacitor (C_f p) (dt p);
          n_Lgrid = make_inductor (L_grid p) (R_grid p) (dt p);
          v_Lf_new = V k - V (k + 3);
          s = s\<lparr>i_Lf := (i_Lf s)(k := G_eq n_Lf * v_Lf_new + I_Lf_hist s k)\<rparr>;
          s = s\<lparr>I_Lf_hist := (I_Lf_hist s)(k := inductor_history n_Lf (i_Lf s k) v_Lf_new)\<rparr>;
          s = s\<lparr>i_Cf := (i_Cf s)(k := G_C n_Cf * V (k + 3) + I_Cf_hist s k)\<rparr>;
          s = s\<lparr>I_Cf_hist := (I_Cf_hist s)(k := capacitor_history n_Cf (i_Cf s k) (V (k + 3)))\<rparr>;
          v_Lgrid_new = V (k + 3) - V (k + 6);
          s = s\<lparr>i_Lgrid := (i_Lgrid s)(k := G_eq n_Lgrid * v_Lgrid_new + I_Lgrid_hist s k)\<rparr>
      in s\<lparr>I_Lgrid_hist := (I_Lgrid_hist s)(k := inductor_history n_Lgrid (i_Lgrid s k) v_Lgrid_new)\<rparr>)"

definition vsc_step :: "vsc_network \<Rightarrow> vsc_state \<Rightarrow> u8 \<Rightarrow> (string + bool) \<times> vsc_network \<times> vsc_state" where
  "vsc_step net s gate =
     (case (if gate \<noteq> gate_factored net then assemble_and_factor gate net else (None, net)) of
        (Some e, net) \<Rightarrow> (Inl e, net, s)
      | (None, net) \<Rightarrow>
          let p = params net;
              s = s\<lparr>gate_bits := gate\<rparr>;
              I_N = injections p s gate;
              V_new = lu_solve 9 (LU_total net) (piv net) I_N (\<lambda>_. 0);
              s = s\<lparr>fault_seen := detect_fault (2 * V_rated p) V_new [0..<9]\<rparr>;
              s = foldl (update_branches p V_new) s [0..<3];
              s = s\<lparr>nodal_v := foldl (\<lambda>v i. v(i := V_new i)) (nodal_v s) [0..<9]\<rparr>;
              s = s\<lparr>sim_time := sim_time s + dt p\<rparr>
          in (Inr (fault_seen s), net, s))"

text \<open>A simulation: a new network and a zero state, advanced by a list of switch settings.\<close>

definition vsc_advance :: "vsc_network \<times> vsc_state \<Rightarrow> u8 \<Rightarrow> (vsc_network \<times> vsc_state) option" where
  "vsc_advance ns gate =
     (case vsc_step (fst ns) (snd ns) gate of (Inr _, net, s) \<Rightarrow> Some (net, s) | (Inl _, _, _) \<Rightarrow> None)"

definition vsc_run :: "solver_params \<Rightarrow> u8 list \<Rightarrow> (vsc_network \<times> vsc_state) option" where
  "vsc_run p gates =
     (case vsc_new p of (None, net) \<Rightarrow> fold_opt vsc_advance (net, vsc_state_new) gates | (Some _, _) \<Rightarrow> None)"

subsection \<open>Specification\<close>

text \<open>
  Parameters of a circuit: positive time step and inductances, no negative resistance, and every
  conductance to the ground above the solver's threshold.
\<close>

definition good_params :: "solver_params \<Rightarrow> bool" where
  "good_params p \<longleftrightarrow> 0 < dt p \<and> 0 < L_f p \<and> 0 \<le> R_f p \<and> 0 < L_grid p \<and> 0 \<le> R_grid p \<and>
     1 / 10 ^ 15 \<le> 2 * C_f p / dt p \<and> 1 / 10 ^ 15 \<le> 1 / R_src p \<and> 1 / 10 ^ 15 \<le> G_on p \<and> 1 / 10 ^ 15 \<le> G_off p"

text \<open>
  Kirchhoff's current law at the inverter terminals, the filter capacitors and the grid terminals, with the
  currents and voltages after the step.
\<close>

definition kirchhoff :: "solver_params \<Rightarrow> u8 \<Rightarrow> real \<Rightarrow> vsc_state \<Rightarrow> bool" where
  "kirchhoff p gate t s \<longleftrightarrow> (\<forall>k < 3.
     i_Lf s k = G_igbt p gate (2 * k) * (V_dc p - nodal_v s k) - G_igbt p gate (2 * k + 1) * nodal_v s k \<and>
     i_Lf s k = i_Cf s k + i_Lgrid s k \<and>
     i_Lgrid s k = (nodal_v s (k + 6) - v_src p t k) / R_src p)"

text \<open>The trapezoidal rule for \<open>L i' + R i = v\<close> and \<open>C v' = i\<close> between two states.\<close>

definition trapezoidal :: "solver_params \<Rightarrow> vsc_state \<Rightarrow> vsc_state \<Rightarrow> bool" where
  "trapezoidal p s s' \<longleftrightarrow> (\<forall>k < 3.
     L_f p * (i_Lf s' k - i_Lf s k) / dt p + R_f p * (i_Lf s' k + i_Lf s k) / 2 =
       ((nodal_v s' k - nodal_v s' (k + 3)) + (nodal_v s k - nodal_v s (k + 3))) / 2 \<and>
     C_f p * (nodal_v s' (k + 3) - nodal_v s (k + 3)) / dt p = (i_Cf s' k + i_Cf s k) / 2 \<and>
     L_grid p * (i_Lgrid s' k - i_Lgrid s k) / dt p + R_grid p * (i_Lgrid s' k + i_Lgrid s k) / 2 =
       ((nodal_v s' (k + 3) - nodal_v s' (k + 6)) + (nodal_v s (k + 3) - nodal_v s (k + 6))) / 2)"

subsection \<open>The conductance matrix\<close>

text \<open>
  Off the diagonal nothing is positive, and the sum of a column is the conductance \<open>e\<close> of the node to the
  ground: a branch between nodes adds nothing to it.
\<close>

definition grounded :: "nat \<Rightarrow> matrix \<Rightarrow> vec \<Rightarrow> bool" where
  "grounded n G e \<longleftrightarrow> (\<forall>i j. i \<noteq> j \<longrightarrow> G i j \<le> 0) \<and> (\<forall>j < n. (\<Sum>i = 0..<n. G i j) = e j)"

lemma stamp_ground_apply: "stamp G p None g i j = G i j + (if i = p \<and> j = p then g else 0)"
  by (simp add: stamp_def)

lemma stamp_branch_apply:
  "p \<noteq> m \<Longrightarrow> stamp G p (Some m) g i j =
     G i j + (if i = p then (if j = p then g else 0) - (if j = m then g else 0) else 0)
           + (if i = m then (if j = m then g else 0) - (if j = p then g else 0) else 0)"
  by (auto simp: stamp_def)

lemma sum_single: "(p :: nat) < n \<Longrightarrow> (\<Sum>i = 0..<n. if i = p then f i else (0 :: real)) = f p"
  by simp

lemma grounded_stamp_ground:
  assumes "grounded n G e" "p < n"
  shows "grounded n (stamp G p None g) (e(p := e p + g))"
proof -
  have "(\<Sum>i = 0..<n. stamp G p None g i j) = (e(p := e p + g)) j" if "j < n" for j
    using assms that by (auto simp: grounded_def stamp_ground_apply sum.distrib)
  then show ?thesis using assms by (simp add: grounded_def stamp_ground_apply)
qed

lemma grounded_stamp_branch:
  assumes "grounded n G e" "p < n" "m < n" "p \<noteq> m" "0 \<le> g"
  shows "grounded n (stamp G p (Some m) g) e"
proof -
  have "(\<Sum>i = 0..<n. stamp G p (Some m) g i j) = e j" if "j < n" for j
    using assms that by (simp add: grounded_def stamp_branch_apply sum.distrib)
  moreover have "stamp G p (Some m) g i j \<le> 0" if "i \<noteq> j" for i j
  proof -
    have "G i j \<le> 0" using assms(1) that by (simp add: grounded_def)
    then show ?thesis using assms(4,5) that by (auto simp: stamp_branch_apply)
  qed
  ultimately show ?thesis by (simp add: grounded_def)
qed

lemma grounded_dominant:
  assumes "grounded n G e" "\<forall>j < n. d \<le> e j"
  shows "dominant d n 0 G"
  unfolding dominant_def
proof
  fix j assume j: "j \<in> {0..<n}"
  have "(\<Sum>i \<in> {0..<n} - {j}. \<bar>G i j\<bar>) = - (\<Sum>i \<in> {0..<n} - {j}. G i j)"
    using assms(1) by (simp add: grounded_def abs_of_nonpos flip: sum_negf)
  moreover have "(\<Sum>i = 0..<n. G i j) = G j j + (\<Sum>i \<in> {0..<n} - {j}. G i j)"
    using j by (intro sum.remove) simp_all
  ultimately show "d + (\<Sum>i \<in> {0..<n} - {j}. \<bar>G i j\<bar>) \<le> G j j"
    using assms j by (auto simp: grounded_def)
qed

text \<open>The current that leaves a node through the stamped branches.\<close>

definition leaving :: "nat \<Rightarrow> matrix \<Rightarrow> vec \<Rightarrow> nat \<Rightarrow> real" where
  "leaving n G x i = (\<Sum>j = 0..<n. G i j * x j)"

lemma leaving_stamp_ground:
  assumes "p < n"
  shows "leaving n (stamp G p None g) x i = leaving n G x i + (if i = p then g * x p else 0)"
proof -
  have "stamp G p None g i j * x j = G i j * x j + (if j = p then if i = p then g * x j else 0 else 0)" for j
    by (simp add: stamp_ground_apply distrib_right)
  then show ?thesis using assms by (simp add: leaving_def sum.distrib sum_single)
qed

lemma leaving_stamp_branch:
  assumes "p < n" "m < n" "p \<noteq> m"
  shows "leaving n (stamp G p (Some m) g) x i =
    leaving n G x i + (if i = p then g * (x p - x m) else if i = m then g * (x m - x p) else 0)"
proof -
  let ?c = "\<lambda>p m j. if i = p then (if j = p then g * x j else 0) - (if j = m then g * x j else 0) else 0"
  have "stamp G p (Some m) g i j * x j = G i j * x j + ?c p m j + ?c m p j" for j
    using assms by (simp add: stamp_branch_apply distrib_right left_diff_distrib)
  moreover have "(\<Sum>j = 0..<n. ?c p m j) = (if i = p then g * (x p - x m) else 0)" if "p < n" "m < n" for p m
    using that by (simp add: sum_subtractf sum_single right_diff_distrib)
  ultimately show ?thesis using assms by (simp add: leaving_def sum.distrib)
qed

text \<open>The loops of stamps.\<close>

lemma grounded_ground_loop:
  assumes "grounded n G e" "distinct ks" "\<forall>k \<in> set ks. k < n"
  shows "grounded n (foldl (\<lambda>G k. stamp G k None (g k)) G ks) (\<lambda>j. e j + (if j \<in> set ks then g j else 0))"
  using assms
proof (induction ks rule: rev_induct)
  case (snoc k ks)
  have "grounded n (foldl (\<lambda>G k. stamp G k None (g k)) G ks) (\<lambda>j. e j + (if j \<in> set ks then g j else 0))"
    using snoc by simp
  from grounded_stamp_ground [OF this, of k "g k"] snoc.prems(3)
  have "grounded n (foldl (\<lambda>G k. stamp G k None (g k)) G (ks @ [k]))
      ((\<lambda>j. e j + (if j \<in> set ks then g j else 0))(k := e k + (if k \<in> set ks then g k else 0) + g k))"
    by (simp del: fun_upd_apply)
  moreover have "(\<lambda>j. e j + (if j \<in> set ks then g j else 0))(k := e k + (if k \<in> set ks then g k else 0) + g k) =
      (\<lambda>j. e j + (if j \<in> set (ks @ [k]) then g j else 0))"
    using snoc.prems(2) by auto
  ultimately show ?case by (simp only:)
qed simp

lemma grounded_branch_loop:
  assumes "grounded n G e" "\<forall>k \<in> set ks. a k < n \<and> b k < n \<and> a k \<noteq> b k" "0 \<le> g"
  shows "grounded n (foldl (\<lambda>G k. stamp G (a k) (Some (b k)) g) G ks) e"
  using assms by (induction ks arbitrary: G) (simp_all add: grounded_stamp_branch)

lemma leaving_ground_loop:
  assumes "distinct ks" "\<forall>k \<in> set ks. k < n"
  shows "leaving n (foldl (\<lambda>G k. stamp G k None (g k)) G ks) x i = leaving n G x i + (if i \<in> set ks then g i * x i else 0)"
  using assms by (induction ks rule: rev_induct) (auto simp: leaving_stamp_ground)

lemma leaving_branch_loop:
  assumes "\<forall>k \<in> set ks. a k < n \<and> b k < n \<and> a k \<noteq> b k"
  shows "leaving n (foldl (\<lambda>G k. stamp G (a k) (Some (b k)) g) G ks) x i =
    leaving n G x i +
    (\<Sum>k\<leftarrow>ks. if i = a k then g * (x (a k) - x (b k)) else if i = b k then g * (x (b k) - x (a k)) else 0)"
  using assms by (induction ks arbitrary: G) (simp_all add: leaving_stamp_branch add.assoc)

lemma G_eq_nonneg: "0 < h \<Longrightarrow> 0 < L \<Longrightarrow> 0 \<le> R \<Longrightarrow> 0 \<le> G_eq (make_inductor L R h)"
  by (simp add: make_inductor_def Let_def)

lemma three: "[0..<3] = [0, 1, 2 :: nat]"
  by (simp add: upt_rec)

lemma less_three: "k < 3 \<longleftrightarrow> k = 0 \<or> k = 1 \<or> k = (2 :: nat)"
  by auto

lemma grounded_assemble:
  assumes "good_params p"
  shows "\<exists>e. grounded 9 (assemble p gate) e \<and> (\<forall>j < 9. 1 / 10 ^ 15 \<le> e j)"
proof -
  have g: "0 \<le> G_eq (make_inductor (L_f p) (R_f p) (dt p))" "0 \<le> G_eq (make_inductor (L_grid p) (R_grid p) (dt p))"
    using assms by (simp_all add: good_params_def G_eq_nonneg)
  let ?e = "\<lambda>j. 0 + (if j \<in> set [3..<6] then G_C (make_capacitor (C_f p) (dt p)) else 0) +
     (if j \<in> set [6..<9] then 1 / R_src p else 0) +
     (if j \<in> set [0..<3] then G_igbt p gate (2 * j) + G_igbt p gate (2 * j + 1) else 0)"
  have "grounded 9 (\<lambda>_ _. 0) (\<lambda>_. 0)" by (simp add: grounded_def)
  then have "grounded 9 (assemble p gate) ?e"
    unfolding assemble_def Let_def
    by (intro grounded_ground_loop grounded_branch_loop) (use g in auto)
  moreover have c: "1 / 10 ^ 15 \<le> G_igbt p gate b" for b
    using assms by (simp add: good_params_def G_igbt_def)
  have "1 / 10 ^ 15 \<le> G_igbt p gate b + G_igbt p gate b'" for b b'
    using c [of b] c [of b'] zero_le_power [of "10 :: real" 15] by (smt (verit) divide_nonneg_nonneg)
  then have "\<forall>j < 9. 1 / 10 ^ 15 \<le> ?e j"
    using assms by (auto simp: good_params_def make_capacitor_def)
  ultimately show ?thesis by blast
qed

text \<open>The current that leaves a node: the sum over its branches.\<close>

lemma leaving_assemble_sum:
  "leaving 9 (assemble p gate) x i =
      (\<Sum>k\<leftarrow>[0..<3]. if i = k then G_eq (make_inductor (L_f p) (R_f p) (dt p)) * (x k - x (k + 3))
         else if i = k + 3 then G_eq (make_inductor (L_f p) (R_f p) (dt p)) * (x (k + 3) - x k) else 0) +
      (if i \<in> set [3..<6] then G_C (make_capacitor (C_f p) (dt p)) * x i else 0) +
      (\<Sum>k\<leftarrow>[0..<3]. if i = k + 3 then G_eq (make_inductor (L_grid p) (R_grid p) (dt p)) * (x (k + 3) - x (k + 6))
         else if i = k + 6 then G_eq (make_inductor (L_grid p) (R_grid p) (dt p)) * (x (k + 6) - x (k + 3)) else 0) +
      (if i \<in> set [6..<9] then 1 / R_src p * x i else 0) +
      (if i \<in> set [0..<3] then (G_igbt p gate (2 * i) + G_igbt p gate (2 * i + 1)) * x i else 0)"
proof -
  define lo mid hi where lists: "lo = [0..<3 :: nat]" "mid = [3..<6 :: nat]" "hi = [6..<9 :: nat]"
  have bounds: "\<forall>k \<in> set lo. k < 3" "\<forall>k \<in> set mid. k < 9" "\<forall>k \<in> set hi. k < 9" "distinct lo" "distinct mid" "distinct hi"
    by (auto simp: lists)
  then have bounds9: "\<forall>k \<in> set lo. k < 9" "\<forall>k \<in> set lo. k < 9 \<and> k + 3 < 9 \<and> k \<noteq> k + 3"
      "\<forall>k \<in> set lo. k + 3 < 9 \<and> k + 6 < 9 \<and> k + 3 \<noteq> k + 6"
    by auto
  have zero: "leaving 9 (\<lambda>_ _. 0) x i = 0" by (simp add: leaving_def)
  show ?thesis
    unfolding assemble_def Let_def lists [symmetric]
    by (simp only: leaving_ground_loop [OF bounds(4) bounds9(1)] leaving_ground_loop [OF bounds(5,2)]
        leaving_ground_loop [OF bounds(6,3)] leaving_branch_loop [OF bounds9(2)] leaving_branch_loop [OF bounds9(3)] zero add_0)
qed

lemma leaving_assemble:
  assumes "k < 3"
  shows "leaving 9 (assemble p gate) x k =
      G_eq (make_inductor (L_f p) (R_f p) (dt p)) * (x k - x (k + 3)) + (G_igbt p gate (2 * k) + G_igbt p gate (2 * k + 1)) * x k"
    and "leaving 9 (assemble p gate) x (k + 3) =
      G_eq (make_inductor (L_f p) (R_f p) (dt p)) * (x (k + 3) - x k) + G_C (make_capacitor (C_f p) (dt p)) * x (k + 3) +
      G_eq (make_inductor (L_grid p) (R_grid p) (dt p)) * (x (k + 3) - x (k + 6))"
    and "leaving 9 (assemble p gate) x (k + 6) =
      G_eq (make_inductor (L_grid p) (R_grid p) (dt p)) * (x (k + 6) - x (k + 3)) + (1 / R_src p) * x (k + 6)"
  using assms by (auto simp: less_three leaving_assemble_sum three)

lemma injections_apply:
  assumes "k < 3"
  shows "injections p s gate k = G_igbt p gate (2 * k) * V_dc p - I_Lf_hist s k"
    and "injections p s gate (k + 3) = I_Lf_hist s k - I_Cf_hist s k - I_Lgrid_hist s k"
    and "injections p s gate (k + 6) = I_Lgrid_hist s k + (1 / R_src p) * v_src p (sim_time s) k"
  using assms by (auto simp: less_three injections_def three Let_def)

lemma detect_fault_iff: "detect_fault limit V is \<longleftrightarrow> (\<exists>i \<in> set is. limit < \<bar>V i\<bar>)"
  by (induction "is") (auto simp: Let_def abs_if)

subsection \<open>The step\<close>

lemma factor_ok:
  assumes "good_params p"
  obtains LU pivot where "lu_factor 9 (assemble p gate, piv0) = (None, LU, pivot)" "\<forall>m < 9. pivot m = m"
  using grounded_assemble [OF assms, of gate] grounded_dominant dominant_lu_factor by blast

definition factored :: "matrix \<Rightarrow> matrix \<times> (nat \<Rightarrow> nat) \<Rightarrow> bool" where
  "factored A f \<longleftrightarrow> (\<exists>piv0. lu_factor 9 (A, piv0) = (None, fst f, snd f))"

definition net_ok :: "vsc_network \<Rightarrow> bool" where
  "net_ok net \<longleftrightarrow> factored (assemble (params net) (gate_factored net)) (LU_total net, piv net)"

lemma assemble_and_factor_ok:
  assumes "good_params (params net)"
  obtains net' where "assemble_and_factor gate net = (None, net')" "net_ok net'" "gate_factored net' = gate" "params net' = params net"
proof -
  obtain LU pivot where "lu_factor 9 (assemble (params net) gate, piv net) = (None, LU, pivot)"
    using factor_ok [OF assms] by blast
  then show thesis
    by (intro that [of "net\<lparr>G_total := assemble (params net) gate, LU_total := LU, piv := pivot, gate_factored := gate\<rparr>"])
      (auto simp: assemble_and_factor_def net_ok_def factored_def)
qed

definition history_ok :: "solver_params \<Rightarrow> vsc_state \<Rightarrow> bool" where
  "history_ok p s \<longleftrightarrow> (\<forall>k < 3.
     I_Lf_hist s k = inductor_history (make_inductor (L_f p) (R_f p) (dt p)) (i_Lf s k) (nodal_v s k - nodal_v s (k + 3)) \<and>
     I_Cf_hist s k = capacitor_history (make_capacitor (C_f p) (dt p)) (i_Cf s k) (nodal_v s (k + 3)) \<and>
     I_Lgrid_hist s k = inductor_history (make_inductor (L_grid p) (R_grid p) (dt p)) (i_Lgrid s k) (nodal_v s (k + 3) - nodal_v s (k + 6)))"

lemma update_branches_apply:
  assumes "k < 3" "s' = foldl (update_branches p V) s [0..<3]"
  shows "i_Lf s' k = G_eq (make_inductor (L_f p) (R_f p) (dt p)) * (V k - V (k + 3)) + I_Lf_hist s k"
    "i_Cf s' k = G_C (make_capacitor (C_f p) (dt p)) * V (k + 3) + I_Cf_hist s k"
    "i_Lgrid s' k = G_eq (make_inductor (L_grid p) (R_grid p) (dt p)) * (V (k + 3) - V (k + 6)) + I_Lgrid_hist s k"
    "I_Lf_hist s' k = inductor_history (make_inductor (L_f p) (R_f p) (dt p)) (i_Lf s' k) (V k - V (k + 3))"
    "I_Cf_hist s' k = capacitor_history (make_capacitor (C_f p) (dt p)) (i_Cf s' k) (V (k + 3))"
    "I_Lgrid_hist s' k = inductor_history (make_inductor (L_grid p) (R_grid p) (dt p)) (i_Lgrid s' k) (V (k + 3) - V (k + 6))"
  using assms by (auto simp: less_three update_branches_def three Let_def)

lemma update_branches_frame:
  "fault_seen (foldl (update_branches p V) s ks) = fault_seen s"
  "sim_time (foldl (update_branches p V) s ks) = sim_time s"
  by (induction ks arbitrary: s) (simp_all add: update_branches_def Let_def)

text \<open>What a step does to the state, given the solution of the node equations.\<close>

definition solved_step :: "solver_params \<Rightarrow> u8 \<Rightarrow> vec \<Rightarrow> vsc_state \<Rightarrow> vsc_state" where
  "solved_step p gate V s =
     (let s = s\<lparr>gate_bits := gate\<rparr>\<lparr>fault_seen := detect_fault (2 * V_rated p) V [0..<9]\<rparr>;
          s = foldl (update_branches p V) s [0..<3];
          s = s\<lparr>nodal_v := foldl (\<lambda>v i. v(i := V i)) (nodal_v s) [0..<9]\<rparr>
      in s\<lparr>sim_time := sim_time s + dt p\<rparr>)"

lemma nodal_v_solved: "i < 9 \<Longrightarrow> nodal_v (solved_step p gate V s) i = V i"
  by (simp add: solved_step_def Let_def copy_apply del: fun_upd_apply)

lemma solved_step_branches:
  assumes "k < 3"
  shows "i_Lf (solved_step p gate V s) k = G_eq (make_inductor (L_f p) (R_f p) (dt p)) * (V k - V (k + 3)) + I_Lf_hist s k"
    "i_Cf (solved_step p gate V s) k = G_C (make_capacitor (C_f p) (dt p)) * V (k + 3) + I_Cf_hist s k"
    "i_Lgrid (solved_step p gate V s) k = G_eq (make_inductor (L_grid p) (R_grid p) (dt p)) * (V (k + 3) - V (k + 6)) + I_Lgrid_hist s k"
  using update_branches_apply [OF assms refl, of p V "s\<lparr>gate_bits := gate, fault_seen := detect_fault (2 * V_rated p) V [0..<9]\<rparr>"]
  by (simp_all add: solved_step_def Let_def)

lemma solved_step_history: "history_ok p (solved_step p gate V s)"
  unfolding history_ok_def
proof (intro allI impI)
  fix k :: nat assume k: "k < 3"
  let ?s' = "solved_step p gate V s"
  have v: "nodal_v ?s' k = V k" "nodal_v ?s' (k + 3) = V (k + 3)" "nodal_v ?s' (k + 6) = V (k + 6)"
    using k by (simp_all add: nodal_v_solved)
  show "I_Lf_hist ?s' k = inductor_history (make_inductor (L_f p) (R_f p) (dt p)) (i_Lf ?s' k) (nodal_v ?s' k - nodal_v ?s' (k + 3)) \<and>
     I_Cf_hist ?s' k = capacitor_history (make_capacitor (C_f p) (dt p)) (i_Cf ?s' k) (nodal_v ?s' (k + 3)) \<and>
     I_Lgrid_hist ?s' k = inductor_history (make_inductor (L_grid p) (R_grid p) (dt p)) (i_Lgrid ?s' k) (nodal_v ?s' (k + 3) - nodal_v ?s' (k + 6))"
    unfolding v
    using update_branches_apply [OF k refl, of p V "s\<lparr>gate_bits := gate, fault_seen := detect_fault (2 * V_rated p) V [0..<9]\<rparr>"]
    by (simp add: solved_step_def Let_def)
qed

lemma solved_step_kirchhoff:
  assumes "\<forall>i < 9. leaving 9 (assemble p gate) V i = injections p s gate i"
  shows "kirchhoff p gate (sim_time s) (solved_step p gate V s)"
  unfolding kirchhoff_def
proof (intro allI impI)
  fix k :: nat assume k: "k < 3"
  have eqs: "leaving 9 (assemble p gate) V k = injections p s gate k"
      "leaving 9 (assemble p gate) V (k + 3) = injections p s gate (k + 3)"
      "leaving 9 (assemble p gate) V (k + 6) = injections p s gate (k + 6)"
    using assms k by auto
  note node = eqs [unfolded leaving_assemble [OF k] injections_apply [OF k]]
  have v: "nodal_v (solved_step p gate V s) k = V k" "nodal_v (solved_step p gate V s) (k + 6) = V (k + 6)"
    using k by (simp_all add: nodal_v_solved)
  show "i_Lf (solved_step p gate V s) k = G_igbt p gate (2 * k) * (V_dc p - nodal_v (solved_step p gate V s) k) -
       G_igbt p gate (2 * k + 1) * nodal_v (solved_step p gate V s) k \<and>
     i_Lf (solved_step p gate V s) k = i_Cf (solved_step p gate V s) k + i_Lgrid (solved_step p gate V s) k \<and>
     i_Lgrid (solved_step p gate V s) k = (nodal_v (solved_step p gate V s) (k + 6) - v_src p (sim_time s) k) / R_src p"
    unfolding v solved_step_branches [OF k] using node by (simp add: algebra_simps diff_divide_distrib)
qed

text \<open>
  What a network needs of its solver: the solution for the factors of a matrix satisfies the matrix's
  equations. Then a step satisfies Kirchhoff's current law.
\<close>

locale circuit_solver =
  fixes factors_of :: "matrix \<Rightarrow> 'f \<Rightarrow> bool" and solve :: "'f \<Rightarrow> vec \<Rightarrow> vec"
  assumes solves: "factors_of A f \<Longrightarrow> i < 9 \<Longrightarrow> leaving 9 A (solve f b) i = b i"
begin

lemma step_kirchhoff:
  "factors_of (assemble p gate) f \<Longrightarrow>
     kirchhoff p gate (sim_time s) (solved_step p gate (solve f (injections p s gate)) s)"
  by (rule solved_step_kirchhoff) (simp add: solves)

end

interpretation host: circuit_solver factored "\<lambda>f b. lu_solve 9 (fst f) (snd f) b (\<lambda>_. 0)"
  by unfold_locales (auto simp: factored_def leaving_def lu_solve_solves)

lemma injections_gate [simp]: "injections p (s\<lparr>gate_bits := g\<rparr>) gate = injections p s gate"
  by (simp add: injections_def)

lemma vsc_step_ok:
  assumes "good_params (params net)" "net_ok net"
  obtains net' V where "vsc_step net s gate = (Inr (fault_seen (solved_step (params net) gate V s)), net', solved_step (params net) gate V s)"
    "net_ok net'" "gate_factored net' = gate" "params net' = params net"
    "kirchhoff (params net) gate (sim_time s) (solved_step (params net) gate V s)"
    "\<forall>i < 9. leaving 9 (assemble (params net) gate) V i = injections (params net) s gate i"
proof -
  obtain net' where n: "(if gate \<noteq> gate_factored net then assemble_and_factor gate net else (None, net)) = (None, net')"
      "net_ok net'" "gate_factored net' = gate" "params net' = params net"
    using assms assemble_and_factor_ok [OF assms(1), of gate] by (cases "gate = gate_factored net") auto
  let ?V = "lu_solve 9 (LU_total net') (piv net') (injections (params net) s gate) (\<lambda>_. 0)"
  have "vsc_step net s gate = (Inr (fault_seen (solved_step (params net) gate ?V s)), net', solved_step (params net) gate ?V s)"
    unfolding vsc_step_def n(1) by (simp add: Let_def solved_step_def n(4))
  moreover have "kirchhoff (params net) gate (sim_time s) (solved_step (params net) gate ?V s)"
    using host.step_kirchhoff [OF n(2) [unfolded net_ok_def]] n(3,4) by simp
  moreover have "\<forall>i < 9. leaving 9 (assemble (params net) gate) ?V i = injections (params net) s gate i"
    using host.solves [OF n(2) [unfolded net_ok_def]] n(3,4) by simp
  ultimately show thesis using n that by blast
qed

lemma inductor_trapezoid:
  assumes "0 < h" "0 < L" "0 \<le> R" "n = make_inductor L R h" "i' = G_eq n * v' + inductor_history n i v"
  shows "L * (i' - i) / h + R * (i' + i) / 2 = (v' + v) / 2"
proof -
  have pos: "0 < 2 * L + R * h" using assms(1-3) by (simp add: add_pos_nonneg)
  have c: "(2 * L + R * h) * G_eq n = h" "(2 * L + R * h) * beta n = 2 * L - R * h"
    using pos by (simp_all add: assms(4) make_inductor_def Let_def)
  have "(2 * L + R * h) * i' = (2 * L + R * h) * G_eq n * (v' + v) + (2 * L + R * h) * beta n * i"
    unfolding assms(5) inductor_history_def by (simp only: distrib_left mult.assoc add.assoc)
  then have "(2 * L + R * h) * i' = h * (v' + v) + (2 * L - R * h) * i" by (simp only: c)
  then show ?thesis using assms(1) by (simp add: field_simps)
qed

lemma capacitor_trapezoid:
  assumes "0 < h" "n = make_capacitor C h" "i' = G_C n * v' + capacitor_history n i v"
  shows "C * (v' - v) / h = (i' + i) / 2"
  using assms by (simp add: capacitor_history_def make_capacitor_def field_simps)

lemma solved_step_trapezoidal:
  assumes "good_params p" "history_ok p s"
  shows "trapezoidal p s (solved_step p gate V s)"
  unfolding trapezoidal_def
proof (intro allI impI conjI)
  fix k :: nat assume k: "k < 3"
  let ?s' = "solved_step p gate V s"
  have v: "nodal_v ?s' k = V k" "nodal_v ?s' (k + 3) = V (k + 3)" "nodal_v ?s' (k + 6) = V (k + 6)"
    using k by (simp_all add: nodal_v_solved)
  note h = assms(2) [unfolded history_ok_def, rule_format, OF k] and b = solved_step_branches [OF k, of p gate V s]
  have pos: "0 < dt p" "0 < L_f p" "0 \<le> R_f p" "0 < L_grid p" "0 \<le> R_grid p"
    using assms(1) by (simp_all add: good_params_def)
  show "L_f p * (i_Lf ?s' k - i_Lf s k) / dt p + R_f p * (i_Lf ?s' k + i_Lf s k) / 2 =
       ((nodal_v ?s' k - nodal_v ?s' (k + 3)) + (nodal_v s k - nodal_v s (k + 3))) / 2"
    by (rule inductor_trapezoid [OF pos(1-3) refl]) (use h b v in simp)
  show "C_f p * (nodal_v ?s' (k + 3) - nodal_v s (k + 3)) / dt p = (i_Cf ?s' k + i_Cf s k) / 2"
    by (rule capacitor_trapezoid [OF pos(1) refl]) (use h b v in simp)
  show "L_grid p * (i_Lgrid ?s' k - i_Lgrid s k) / dt p + R_grid p * (i_Lgrid ?s' k + i_Lgrid s k) / 2 =
       ((nodal_v ?s' (k + 3) - nodal_v ?s' (k + 6)) + (nodal_v s (k + 3) - nodal_v s (k + 6))) / 2"
    by (rule inductor_trapezoid [OF pos(1,4,5) refl]) (use h b v in simp)
qed

text \<open>The invariant of a simulation.\<close>

definition sim_ok :: "solver_params \<Rightarrow> vsc_network \<times> vsc_state \<Rightarrow> bool" where
  "sim_ok p ns \<longleftrightarrow> net_ok (fst ns) \<and> params (fst ns) = p \<and> history_ok p (snd ns)"

lemma sim_ok_step:
  assumes "good_params p" "sim_ok p (net, s)"
  obtains net' s' where "vsc_step net s gate = (Inr (fault_seen s'), net', s')" "sim_ok p (net', s')"
    "kirchhoff p gate (sim_time s) s'" "trapezoidal p s s'" "sim_time s' = sim_time s + dt p"
    "fault_seen s' \<longleftrightarrow> (\<exists>i < 9. 2 * V_rated p < \<bar>nodal_v s' i\<bar>)" "gate_factored net' = gate"
proof -
  have ok: "good_params (params net)" "net_ok net" "params net = p" "history_ok p s"
    using assms by (simp_all add: sim_ok_def)
  obtain net' V where st: "vsc_step net s gate = (Inr (fault_seen (solved_step p gate V s)), net', solved_step p gate V s)"
      "net_ok net'" "params net' = p" "kirchhoff p gate (sim_time s) (solved_step p gate V s)"
      "gate_factored net' = gate"
    using vsc_step_ok [OF ok(1,2), of s gate] ok(3) by metis
  let ?s' = "solved_step p gate V s"
  have "sim_time ?s' = sim_time s + dt p" "fault_seen ?s' = detect_fault (2 * V_rated p) V [0..<9]"
    by (simp_all add: solved_step_def Let_def update_branches_frame)
  moreover have "detect_fault (2 * V_rated p) V [0..<9] \<longleftrightarrow> (\<exists>i < 9. 2 * V_rated p < \<bar>nodal_v ?s' i\<bar>)"
    by (auto simp: detect_fault_iff nodal_v_solved simp del: upt_Suc)
  ultimately show thesis
    using that [OF st(1)] st(2,3,5) solved_step_history st(4)
      solved_step_trapezoidal [OF assms(1) ok(4)] by (simp add: sim_ok_def)
qed

lemma sim_ok_run:
  assumes "good_params p"
  obtains net s where "vsc_run p gates = Some (net, s)" "sim_ok p (net, s)"
proof -
  obtain net0 where n: "vsc_new p = (None, net0)" "net_ok net0" "params net0 = p"
    using assemble_and_factor_ok [of "\<lparr>params = p, G_total = \<lambda>_ _. 0, LU_total = \<lambda>_ _. 0, piv = \<lambda>_. 0, gate_factored = 0xFF\<rparr>" 0] assms
    by (auto simp: vsc_new_def)
  have start: "sim_ok p (net0, vsc_state_new)"
    using n by (simp add: sim_ok_def history_ok_def vsc_state_new_def inductor_history_def capacitor_history_def)
  have "\<exists>net s. fold_opt vsc_advance (net0, vsc_state_new) gates = Some (net, s) \<and> sim_ok p (net, s)"
  proof (induction gates rule: rev_induct)
    case (snoc g gs)
    then obtain net s where "fold_opt vsc_advance (net0, vsc_state_new) gs = Some (net, s)" "sim_ok p (net, s)" by blast
    moreover obtain net' s' where "vsc_step net s g = (Inr (fault_seen s'), net', s')" "sim_ok p (net', s')"
      by (rule sim_ok_step [OF assms \<open>sim_ok p (net, s)\<close>])
    moreover from this have "vsc_advance (net, s) g = Some (net', s')" by (simp add: vsc_advance_def)
    ultimately show ?case by (simp add: fold_opt_append)
  qed (use start in simp)
  then show thesis using n that by (auto simp: vsc_run_def)
qed

lemma vsc_run_snoc: "vsc_run p gates = Some ns \<Longrightarrow> vsc_run p (gates @ [gate]) = vsc_advance ns gate"
  by (cases "vsc_advance ns gate") (auto simp: vsc_run_def fold_opt_append split: prod.splits option.splits)

lemma sim_ok_run_last:
  assumes "good_params p" "vsc_run p (gates @ [gate]) = Some (net, s)"
  shows "sim_ok p (net, s) \<and> gate_factored net = gate"
proof -
  obtain net0 s0 where run: "vsc_run p gates = Some (net0, s0)" "sim_ok p (net0, s0)"
    by (rule sim_ok_run [OF assms(1)])
  obtain net' s' where st: "vsc_step net0 s0 gate = (Inr (fault_seen s'), net', s')" "sim_ok p (net', s')" "gate_factored net' = gate"
    by (rule sim_ok_step [OF assms(1) run(2)])
  then have "vsc_advance (net0, s0) gate = Some (net', s')" by (simp add: vsc_advance_def)
  then have "vsc_run p (gates @ [gate]) = Some (net', s')"
    using run(1) by (simp add: vsc_run_snoc)
  then show ?thesis using assms(2) st by simp
qed

subsection \<open>Properties\<close>

text \<open>
  C8. Simulating a circuit with sensible parameters never finds a singular matrix, and each step satisfies
  Kirchhoff's current law at every node and the trapezoidal rule for every inductor and capacitor, advances
  the time by the time step, and reports a fault exactly if a voltage exceeds twice the rated one.\<close>

theorem vsc_simulation_solves_circuit:
  assumes "good_params p"
  shows "\<exists>net s net' s'. vsc_run p gates = Some (net, s) \<and> vsc_step net s gate = (Inr (fault_seen s'), net', s') \<and>
    kirchhoff p gate (sim_time s) s' \<and> trapezoidal p s s' \<and> sim_time s' = sim_time s + dt p \<and>
    (fault_seen s' \<longleftrightarrow> (\<exists>i < 9. 2 * V_rated p < \<bar>nodal_v s' i\<bar>))"
proof -
  obtain net s where "vsc_run p gates = Some (net, s)" "sim_ok p (net, s)" by (rule sim_ok_run [OF assms])
  moreover obtain net' s' where "vsc_step net s gate = (Inr (fault_seen s'), net', s')" "kirchhoff p gate (sim_time s) s'"
      "trapezoidal p s s'" "sim_time s' = sim_time s + dt p" "fault_seen s' \<longleftrightarrow> (\<exists>i < 9. 2 * V_rated p < \<bar>nodal_v s' i\<bar>)"
    by (rule sim_ok_step [OF assms \<open>sim_ok p (net, s)\<close>])
  ultimately show ?thesis by blast
qed

theorem vsc_simulation_solves_circuit_witness:
  "\<exists>net s net' s'. vsc_run default_params [0x15, 0x2A] = Some (net, s) \<and>
     vsc_step net s 0x15 = (Inr (fault_seen s'), net', s') \<and> kirchhoff default_params 0x15 (sim_time s) s' \<and>
     trapezoidal default_params s s'"
proof -
  have "good_params default_params" by (simp add: good_params_def default_params_def)
  from vsc_simulation_solves_circuit [OF this, of "[0x15, 0x2A]" "0x15"] show ?thesis by blast
qed

end
