(* ===== verification/Hls_Solver.thy ===== *)
theory Hls_Solver
  imports Vsc_Network
begin

text \<open>
  The FPGA kernel \<^verbatim>\<open>solver_top\<close> with \<^verbatim>\<open>norton_update\<close>, \<^verbatim>\<open>lu_solve\<close> and \<^verbatim>\<open>update_history\<close>, as compiled on the host
  (the fixed-point type is then a floating-point number, here a real number). The kernel's static arrays
  are its state; the host writes the factors into them.
\<close>

subsection \<open>Types\<close>

record axis_gate = gate_data :: u8  gate_last :: u8

record axis_state = state_data :: real  state_last :: u8

record fixed_params =
  fp_dt :: real
  fp_G_Lf :: real
  fp_beta_Lf :: real
  fp_G_Cf :: real
  fp_G_Lgrid :: real
  fp_beta_Lgrid :: real
  fp_G_on :: real
  fp_G_off :: real
  fp_G_vs :: real
  fp_V_dc :: real
  fp_V_rated :: real

record hls_state =
  s_L :: matrix
  s_U :: matrix
  s_piv :: "nat \<Rightarrow> nat"
  s_V :: vec
  s_hist :: vec
  s_t :: real

subsection \<open>lu_solve.cpp\<close>

definition forward_sub :: "matrix \<Rightarrow> vec \<Rightarrow> vec \<Rightarrow> vec" where
  "forward_sub L b y =
     foldl (\<lambda>y i. let s = foldl (\<lambda>s j. s - L i j * y j) (b i) [0..<i] in y(i := s)) y [0..<9]"

definition back_sub :: "matrix \<Rightarrow> vec \<Rightarrow> vec \<Rightarrow> vec" where
  "back_sub U y x =
     foldl (\<lambda>x i. let s = foldl (\<lambda>s j. s - U i j * x j) (y i) [i + 1..<9] in x(i := s / U i i)) x (rev [0..<9])"

definition hls_lu_solve :: "matrix \<Rightarrow> matrix \<Rightarrow> (nat \<Rightarrow> nat) \<Rightarrow> vec \<Rightarrow> vec \<Rightarrow> vec" where
  "hls_lu_solve L_bram U_bram pv I_N V_out =
     (let b_perm = foldl (\<lambda>b i. b(i := I_N (pv i))) (\<lambda>_. 0) [0..<9];
          y = forward_sub L_bram b_perm (\<lambda>_. 0)
      in back_sub U_bram y V_out)"

subsection \<open>norton_update.cpp\<close>

text \<open>The exact value of the double \<^verbatim>\<open>TWO_PI\<close>.\<close>

definition TWO_PI :: real where
  "TWO_PI = 884279719003555 / 140737488355328"

definition hls_V_grid_peak :: real where
  "hls_V_grid_peak = 230 * (141421356237 / 10 ^ 11)"

definition norton_update :: "vec \<Rightarrow> vec \<Rightarrow> u8 \<Rightarrow> real \<Rightarrow> fixed_params \<Rightarrow> vec \<Rightarrow> vec" where
  "norton_update state_in hist gate t p I_out =
     foldl (\<lambda>I k.
       let I = I(k := I k - hist k);
           I = I(k + 3 := I (k + 3) + hist k);
           I = I(k + 3 := I (k + 3) - hist (k + 3));
           I = I(k + 3 := I (k + 3) - hist (k + 6));
           I = I(k + 6 := I (k + 6) + hist (k + 6));
           phase_off = real k * (- TWO_PI / 3);
           v_src = hls_V_grid_peak * sin (TWO_PI * 50 * t + phase_off);
           I = I(k + 6 := I (k + 6) + fp_G_vs p * v_src);
           G_T1 = (if igbt_on gate (2 * k) then fp_G_on p else fp_G_off p)
       in I(k := I k + G_T1 * fp_V_dc p)) (foldl (\<lambda>I i. I(i := 0)) I_out [0..<9]) [0..<3]"

definition update_history :: "vec \<Rightarrow> vec \<Rightarrow> fixed_params \<Rightarrow> vec \<times> vec \<Rightarrow> vec \<times> vec" where
  "update_history V_new hist_in p out =
     foldl (\<lambda>(hist_out, branch) k.
       let v_Lf = V_new k - V_new (k + 3);
           i_Lf = fp_G_Lf p * v_Lf + hist_in k;
           hist_out = hist_out(k := fp_G_Lf p * v_Lf + fp_beta_Lf p * i_Lf);
           branch = branch(k := i_Lf);
           i_Cf = fp_G_Cf p * V_new (k + 3) + hist_in (k + 3);
           hist_out = hist_out(k + 3 := - i_Cf - fp_G_Cf p * V_new (k + 3));
           branch = branch(k + 3 := i_Cf);
           v_Lg = V_new (k + 3) - V_new (k + 6);
           i_Lgrid = fp_G_Lgrid p * v_Lg + hist_in (k + 6);
           hist_out = hist_out(k + 6 := fp_G_Lgrid p * v_Lg + fp_beta_Lgrid p * i_Lgrid);
           branch = branch(k + 6 := i_Lgrid)
       in (hist_out, branch)) out [0..<3]"

subsection \<open>solver_top.cpp\<close>

definition solver_top ::
  "axis_gate \<Rightarrow> (nat \<Rightarrow> axis_state) \<Rightarrow> fixed_params \<Rightarrow> hls_state \<Rightarrow> hls_state \<times> (nat \<Rightarrow> axis_state)" where
  "solver_top gate_in state_out p st =
     (let I_N = norton_update (s_V st) (s_hist st) (gate_data gate_in) (s_t st) p (\<lambda>_. 0);
          V_new = hls_lu_solve (s_L st) (s_U st) (s_piv st) I_N (\<lambda>_. 0);
          (hist_new, branch_currents) = update_history V_new (s_hist st) p (\<lambda>_. 0, \<lambda>_. 0);
          st = st\<lparr>s_V := foldl (\<lambda>v i. v(i := V_new i)) (s_V st) [0..<9]\<rparr>;
          st = st\<lparr>s_hist := foldl (\<lambda>h i. h(i := hist_new i)) (s_hist st) [0..<9]\<rparr>;
          st = st\<lparr>s_t := s_t st + fp_dt p\<rparr>
      in (st, foldl (\<lambda>out i. out(i := \<lparr>state_data = V_new i, state_last = (if i = 9 - 1 then 1 else 0)\<rparr>)) state_out [0..<9]))"

subsection \<open>Relation to the network\<close>

text \<open>The registers the host has to write for the parameters of a network.\<close>

definition fixed_of :: "solver_params \<Rightarrow> fixed_params" where
  "fixed_of p =
     (let n_Lf = make_inductor (L_f p) (R_f p) (dt p); n_Lgrid = make_inductor (L_grid p) (R_grid p) (dt p)
      in \<lparr>fp_dt = dt p, fp_G_Lf = G_eq n_Lf, fp_beta_Lf = beta n_Lf, fp_G_Cf = G_C (make_capacitor (C_f p) (dt p)),
          fp_G_Lgrid = G_eq n_Lgrid, fp_beta_Lgrid = beta n_Lgrid, fp_G_on = G_on p, fp_G_off = G_off p,
          fp_G_vs = 1 / R_src p, fp_V_dc = V_dc p, fp_V_rated = V_rated p\<rparr>)"

text \<open>
  Factors split into their triangles, and as row permutation the one the successive exchanges make; a
  kernel that holds the factors of a network.
\<close>

definition split_factors :: "matrix \<times> (nat \<Rightarrow> nat) \<Rightarrow> matrix \<times> matrix \<times> (nat \<Rightarrow> nat) \<Rightarrow> bool" where
  "split_factors f h \<longleftrightarrow>
     (case (f, h) of ((LU, pv), (L, U, perm)) \<Rightarrow>
        (\<forall>i < 9. (\<forall>j < i. L i j = LU i j) \<and> (\<forall>j \<in> {i..<9}. U i j = LU i j) \<and>
           perm i = apply_pivots [0..<9] pv (\<lambda>i. i) i))"

definition loaded :: "vsc_network \<Rightarrow> hls_state \<Rightarrow> bool" where
  "loaded net st \<longleftrightarrow> split_factors (LU_total net, piv net) (s_L st, s_U st, s_piv st)"

definition same_state :: "vsc_state \<Rightarrow> hls_state \<Rightarrow> bool" where
  "same_state s st \<longleftrightarrow>
     (\<forall>k < 3. s_hist st k = I_Lf_hist s k \<and> s_hist st (k + 3) = I_Cf_hist s k \<and> s_hist st (k + 6) = I_Lgrid_hist s k) \<and>
     (\<forall>i < 9. s_V st i = nodal_v s i) \<and> s_t st = sim_time s"

text \<open>
  The network the kernel computes for some parameters: its grid source is built in, with 50 Hz and the amplitude
  230 times 1.41421356237, whatever the parameters say.
\<close>

definition kernel_grid :: "solver_params \<Rightarrow> solver_params" where
  "kernel_grid p = p\<lparr>V_grid_rms := hls_V_grid_peak / sqrt 2, f_grid := 50\<rparr>"

subsection \<open>Lemmas\<close>

lemma kernel_grid_simps [simp]:
  "V_grid_rms (kernel_grid p) * sqrt 2 = hls_V_grid_peak" "f_grid (kernel_grid p) = 50" "fixed_of (kernel_grid p) = fixed_of p"
  "good_params (kernel_grid p) = good_params p"
  by (simp_all add: kernel_grid_def fixed_of_def good_params_def)

lemma sqrt_2_digits: "\<bar>hls_V_grid_peak - 230 * sqrt 2\<bar> \<le> 1 / 10 ^ 9"
proof -
  have "141421356237 / 10 ^ 11 \<le> sqrt 2" by (rule real_le_rsqrt) (simp add: power2_eq_square)
  moreover have "sqrt 2 \<le> 1414213562374 / 10 ^ 12" by (rule real_le_lsqrt) (simp_all add: power2_eq_square)
  ultimately show ?thesis unfolding hls_V_grid_peak_def by (simp add: abs_le_iff)
qed

lemma kernel_grid_close:
  assumes "V_grid_rms p = 230" "f_grid p = 50"
  shows "\<bar>v_src (kernel_grid p) t k - v_src p t k\<bar> \<le> 1 / 10 ^ 9"
proof -
  define x where "x = sin (2 * M_PI * 50 * t + real k * (- 2 * M_PI / 3))"
  have "v_src (kernel_grid p) t k - v_src p t k = (hls_V_grid_peak - 230 * sqrt 2) * x"
    unfolding v_src_def Let_def kernel_grid_simps assms x_def by (simp only: left_diff_distrib)
  moreover have "\<bar>(hls_V_grid_peak - 230 * sqrt 2) * x\<bar> \<le> 1 / 10 ^ 9 * 1"
    unfolding abs_mult using sqrt_2_digits by (intro mult_mono) (simp_all add: x_def)
  ultimately show ?thesis by simp
qed

lemma fixed_of_simps [simp]:
  "fp_dt (fixed_of p) = dt p" "fp_G_Lf (fixed_of p) = G_eq (make_inductor (L_f p) (R_f p) (dt p))"
  "fp_beta_Lf (fixed_of p) = beta (make_inductor (L_f p) (R_f p) (dt p))"
  "fp_G_Cf (fixed_of p) = G_C (make_capacitor (C_f p) (dt p))"
  "fp_G_Lgrid (fixed_of p) = G_eq (make_inductor (L_grid p) (R_grid p) (dt p))"
  "fp_beta_Lgrid (fixed_of p) = beta (make_inductor (L_grid p) (R_grid p) (dt p))"
  "fp_G_on (fixed_of p) = G_on p" "fp_G_off (fixed_of p) = G_off p" "fp_G_vs (fixed_of p) = 1 / R_src p"
  "fp_V_dc (fixed_of p) = V_dc p"
  by (simp_all add: fixed_of_def Let_def)

lemma apply_pivots_index: "apply_pivots ks pv b i = b (apply_pivots ks pv (\<lambda>i. i) i)"
  by (induction ks arbitrary: i rule: rev_induct) simp_all

lemma TWO_PI_eq: "TWO_PI = 2 * M_PI"
  by (simp add: TWO_PI_def M_PI_def)

lemma write_apply: "foldl (\<lambda>f i. f(i := g i)) f [0..<n] i = (if i < n then g i else f i)" for n :: nat
  by (induction n) auto

lemma forward_sub_cong:
  assumes "\<forall>i < 9. b i = b' i \<and> (\<forall>j < i. L i j = L' i j)"
  shows "forward_sub L b y = forward_sub L' b' y"
  unfolding forward_sub_def Let_def
  by (intro foldl_cong refl) (use assms in \<open>auto intro!: arg_cong [of _ _ "fun_upd _ _"] foldl_cong\<close>)

lemma forward_sub_in_place:
  assumes "i < 9"
  shows "forward_sub L b y i = forward_in_place 9 L b i"
proof -
  define Y where "Y m = foldl (\<lambda>y i. let s = foldl (\<lambda>s j. s - L i j * y j) (b i) [0..<i] in y(i := s)) y [0..<m]" for m
  define Z where "Z m = foldl (\<lambda>y i. let s = foldl (\<lambda>s j. s - L i j * y j) (y i) [0..<i] in y(i := s)) b [0..<m]" for m
  have steps: "Y (Suc m) = (Y m)(m := b m - (\<Sum>j = 0..<m. L m j * Y m j))"
    "Z (Suc m) = (Z m)(m := Z m m - (\<Sum>j = 0..<m. L m j * Z m j))" for m
    by (simp_all add: Y_def Z_def Let_def foldl_minus_sum)
  have "(\<forall>i < m. Y m i = Z m i) \<and> (\<forall>i \<ge> m. Z m i = b i)" for m
  proof (induction m)
    case (Suc m)
    then have "(\<Sum>j = 0..<m. L m j * Y m j) = (\<Sum>j = 0..<m. L m j * Z m j)" by (intro sum.cong) auto
    with Suc show ?case by (auto simp: steps less_Suc_eq)
  qed (simp add: Y_def Z_def)
  then show ?thesis using assms by (simp add: forward_sub_def forward_in_place_def Y_def Z_def)
qed

lemma back_sub_cong:
  assumes "\<forall>i < 9. y i = y' i \<and> (\<forall>j \<in> {i..<9}. U i j = LU i j)"
  shows "back_sub U y x = back_substitution 9 LU y' x"
  unfolding back_sub_def back_substitution_def Let_def
  by (intro foldl_cong refl) (use assms in \<open>auto intro!: arg_cong2 [of _ _ _ _ "(/)"] arg_cong [of _ _ "fun_upd _ _"] foldl_cong\<close>)

lemma apply_pivots_bound:
  "\<forall>k \<in> set ks. k < n \<and> pv k < n \<Longrightarrow> i < n \<Longrightarrow> apply_pivots ks pv (\<lambda>i. i) i < n"
  by (induction ks arbitrary: i rule: rev_induct) auto

text \<open>Both solvers give the same solution, so the kernel's solver meets the contract of the network.\<close>

lemma hls_lu_solve_eq:
  assumes split: "split_factors (LU, pv) (L, U, perm)" and "\<forall>i < 9. pv i < 9"
  shows "hls_lu_solve L U perm b x = lu_solve 9 LU pv b x"
proof -
  let ?b = "foldl (\<lambda>y i. y(i := b (perm i))) (\<lambda>_. 0) [0..<9]"
  let ?y = "apply_pivots [0..<9] pv (foldl (\<lambda>y i. y(i := b i)) (\<lambda>_. 0) [0..<9])"
  have "?b i = ?y i" if "i < 9" for i
  proof -
    have "apply_pivots [0..<9] pv (\<lambda>i. i) i < 9"
      using assms(2) that by (intro apply_pivots_bound) auto
    then show ?thesis
      using split that by (subst apply_pivots_index) (simp add: write_apply split_factors_def del: upt_Suc)
  qed
  then have "forward_sub L ?b (\<lambda>_. 0) = forward_sub LU ?y (\<lambda>_. 0)"
    using split by (intro forward_sub_cong) (simp add: split_factors_def)
  then have "back_sub U (forward_sub L ?b (\<lambda>_. 0)) x = back_substitution 9 LU (forward_in_place 9 LU ?y) x"
    using split by (intro back_sub_cong) (simp add: split_factors_def forward_sub_in_place)
  then show ?thesis by (simp only: hls_lu_solve_def lu_solve_def Let_def)
qed

lemma factored_pivots: "factored A (LU, pv) \<Longrightarrow> \<forall>i < 9. pv i < 9"
  using lu_factor_correct(2) by (auto simp: factored_def)

interpretation kernel: circuit_solver "\<lambda>A h. \<exists>f. factored A f \<and> split_factors f h"
  "\<lambda>h b. hls_lu_solve (fst h) (fst (snd h)) (snd (snd h)) b (\<lambda>_. 0)"
proof
  fix A h i b
  assume "\<exists>f. factored A f \<and> split_factors f h" and i: "i < (9 :: nat)"
  then obtain LU pv L U perm where f: "factored A (LU, pv)" "h = (L, U, perm)" "split_factors (LU, pv) (L, U, perm)"
    by (cases h) auto
  show "leaving 9 A (hls_lu_solve (fst h) (fst (snd h)) (snd (snd h)) b (\<lambda>_. 0)) i = b i"
    using host.solves [OF f(1) i] hls_lu_solve_eq [OF f(3) factored_pivots [OF f(1)]] by (simp add: f(2))
qed

lemma write_zero: "foldl (\<lambda>I i. I(i := 0)) (\<lambda>_. 0) [0..<n] = (\<lambda>_. 0)" for n :: nat
  by (rule ext) (simp add: write_apply)

text \<open>Both assemble the same injections.\<close>

lemma norton_update_eq:
  assumes "same_state s st" "V_grid_rms p * sqrt 2 = hls_V_grid_peak" "f_grid p = 50"
  shows "norton_update V (s_hist st) gate (s_t st) (fixed_of p) (\<lambda>_. 0) = injections p s gate"
proof -
  have h: "s_hist st k = I_Lf_hist s k" "s_hist st (k + 3) = I_Cf_hist s k" "s_hist st (k + 6) = I_Lgrid_hist s k" if "k < 3" for k
    using assms(1) that by (simp_all add: same_state_def)
  have t: "s_t st = sim_time s" using assms(1) by (simp add: same_state_def)
  have src: "v_src p (sim_time s) k = hls_V_grid_peak * sin (TWO_PI * 50 * s_t st + real k * (- TWO_PI / 3))" for k
    using assms(2,3) by (simp add: v_src_def TWO_PI_eq t)
  show ?thesis
    unfolding norton_update_def injections_def write_zero
  proof (intro foldl_cong refl)
    fix I :: vec and k :: nat assume "k \<in> set [0..<3]"
    then have k: "k < 3" by simp
    show "(let I = I(k := I k - s_hist st k);
           I = I(k + 3 := I (k + 3) + s_hist st k);
           I = I(k + 3 := I (k + 3) - s_hist st (k + 3));
           I = I(k + 3 := I (k + 3) - s_hist st (k + 6));
           I = I(k + 6 := I (k + 6) + s_hist st (k + 6));
           phase_off = real k * (- TWO_PI / 3);
           v_src = hls_V_grid_peak * sin (TWO_PI * 50 * s_t st + phase_off);
           I = I(k + 6 := I (k + 6) + fp_G_vs (fixed_of p) * v_src);
           G_T1 = (if igbt_on gate (2 * k) then fp_G_on (fixed_of p) else fp_G_off (fixed_of p))
       in I(k := I k + G_T1 * fp_V_dc (fixed_of p))) =
      (let I = I(k := I k - I_Lf_hist s k);
           I = I(k + 3 := I (k + 3) + I_Lf_hist s k);
           I = I(k + 3 := I (k + 3) - I_Cf_hist s k);
           I = I(k + 3 := I (k + 3) - I_Lgrid_hist s k);
           I = I(k + 6 := I (k + 6) + I_Lgrid_hist s k);
           I = I(k + 6 := I (k + 6) + 1 / R_src p * v_src p (sim_time s) k)
       in I(k := I k + G_igbt p gate (2 * k) * V_dc p))"
      unfolding h [OF k] src G_igbt_def by (simp only: Let_def fixed_of_simps)
  qed
qed

lemma update_history_apply:
  assumes "k < 3" "history = fst (update_history V h p (\<lambda>_. 0, \<lambda>_. 0))"
  shows "history k = fp_G_Lf p * (V k - V (k + 3)) + fp_beta_Lf p * (fp_G_Lf p * (V k - V (k + 3)) + h k)"
    "history (k + 3) = - (fp_G_Cf p * V (k + 3) + h (k + 3)) - fp_G_Cf p * V (k + 3)"
    "history (k + 6) = fp_G_Lgrid p * (V (k + 3) - V (k + 6)) + fp_beta_Lgrid p * (fp_G_Lgrid p * (V (k + 3) - V (k + 6)) + h (k + 6))"
  using assms by (auto simp: less_three update_history_def three Let_def)

lemma vsc_step_same_gate:
  fixes s :: vsc_state
  assumes "gate_factored net = gate" "params net = p"
  defines "V \<equiv> lu_solve 9 (LU_total net) (piv net) (injections p s gate) (\<lambda>_. 0)"
  shows "vsc_step net s gate = (Inr (fault_seen (solved_step p gate V s)), net, solved_step p gate V s)"
  using assms(1,2) by (simp add: vsc_step_def V_def Let_def solved_step_def)

lemma solved_step_hist:
  assumes "k < 3"
  shows "I_Lf_hist (solved_step p gate V s) k = inductor_history (make_inductor (L_f p) (R_f p) (dt p))
       (G_eq (make_inductor (L_f p) (R_f p) (dt p)) * (V k - V (k + 3)) + I_Lf_hist s k) (V k - V (k + 3))"
    "I_Cf_hist (solved_step p gate V s) k = capacitor_history (make_capacitor (C_f p) (dt p))
       (G_C (make_capacitor (C_f p) (dt p)) * V (k + 3) + I_Cf_hist s k) (V (k + 3))"
    "I_Lgrid_hist (solved_step p gate V s) k = inductor_history (make_inductor (L_grid p) (R_grid p) (dt p))
       (G_eq (make_inductor (L_grid p) (R_grid p) (dt p)) * (V (k + 3) - V (k + 6)) + I_Lgrid_hist s k) (V (k + 3) - V (k + 6))"
  using solved_step_history [of p gate V s, unfolded history_ok_def, rule_format, OF assms] assms
  by (simp_all add: solved_step_branches nodal_v_solved)

lemma solver_top_state:
  fixes st p gate_in out
  defines "V \<equiv> hls_lu_solve (s_L st) (s_U st) (s_piv st) (norton_update (s_V st) (s_hist st) (gate_data gate_in) (s_t st) p (\<lambda>_. 0)) (\<lambda>_. 0)"
  shows "s_L (fst (solver_top gate_in out p st)) = s_L st" "s_U (fst (solver_top gate_in out p st)) = s_U st"
    "s_piv (fst (solver_top gate_in out p st)) = s_piv st" "s_t (fst (solver_top gate_in out p st)) = s_t st + fp_dt p"
    "i < 9 \<Longrightarrow> s_V (fst (solver_top gate_in out p st)) i = V i"
    "i < 9 \<Longrightarrow> s_hist (fst (solver_top gate_in out p st)) i = fst (update_history V (s_hist st) p (\<lambda>_. 0, \<lambda>_. 0)) i"
    "i < 9 \<Longrightarrow> snd (solver_top gate_in out p st) i = \<lparr>state_data = V i, state_last = (if i = 8 then 1 else 0)\<rparr>"
  by (simp_all add: solver_top_def V_def [symmetric] Let_def split_beta write_apply del: upt_Suc)

lemma solver_top_simulates:
  assumes "net_ok net" "params net = p" "gate_factored net = gate_data gate_in" "loaded net st" "same_state s st"
    and "V_grid_rms p * sqrt 2 = hls_V_grid_peak" "f_grid p = 50"
  obtains s' where "vsc_step net s (gate_data gate_in) = (Inr (fault_seen s'), net, s')"
    "same_state s' (fst (solver_top gate_in out (fixed_of p) st))" "loaded net (fst (solver_top gate_in out (fixed_of p) st))"
    "\<forall>i < 9. snd (solver_top gate_in out (fixed_of p) st) i = \<lparr>state_data = nodal_v s' i, state_last = (if i = 8 then 1 else 0)\<rparr>"
proof -
  let ?g = "gate_data gate_in" and ?top = "solver_top gate_in out (fixed_of p) st"
  define V where "V = lu_solve 9 (LU_total net) (piv net) (injections p s ?g) (\<lambda>_. 0)"
  let ?s' = "solved_step p ?g V s"
  have "\<forall>i < 9. piv net i < 9" using assms(1) factored_pivots by (auto simp: net_ok_def)
  then have V: "hls_lu_solve (s_L st) (s_U st) (s_piv st)
      (norton_update (s_V st) (s_hist st) ?g (s_t st) (fixed_of p) (\<lambda>_. 0)) (\<lambda>_. 0) = V"
    unfolding V_def norton_update_eq [OF assms(5-7)] by (rule hls_lu_solve_eq [OF assms(4) [unfolded loaded_def]])
  note top = solver_top_state [where gate_in = gate_in and out = out and p = "fixed_of p" and st = st, unfolded V]
  have h: "s_hist st k = I_Lf_hist s k" "s_hist st (k + 3) = I_Cf_hist s k" "s_hist st (k + 6) = I_Lgrid_hist s k" if "k < 3" for k
    using assms(5) that by (simp_all add: same_state_def)
  have "s_hist (fst ?top) k = I_Lf_hist ?s' k \<and> s_hist (fst ?top) (k + 3) = I_Cf_hist ?s' k \<and> s_hist (fst ?top) (k + 6) = I_Lgrid_hist ?s' k"
    if k: "k < 3" for k
    using k by (simp add: top(6) update_history_apply [OF k refl] solved_step_hist [OF k] h
        inductor_history_def capacitor_history_def)
  moreover have "sim_time ?s' = sim_time s + dt p" by (simp add: solved_step_def Let_def update_branches_frame)
  ultimately have "same_state ?s' (fst ?top)"
    using assms(5) by (simp add: same_state_def top nodal_v_solved)
  moreover have "loaded net (fst ?top)" using assms(4) by (simp add: loaded_def top)
  ultimately show thesis
    using vsc_step_same_gate [OF assms(3,2), of s] that [of ?s'] by (simp add: V_def [symmetric] top nodal_v_solved)
qed

subsection \<open>Properties\<close>

text \<open>
  C9. One call of the kernel, as built for the host, is one step of the network with the kernel's built-in grid source
  (50 Hz, amplitude 230 times 1.41421356237) and otherwise the given sensible parameters: if the kernel holds the
  factors for the switches now set, the state of a simulation of that network and the registers for its parameters,
  then it produces the voltages of the network's next step, marks the last of the nine and again holds the
  simulation's state and the factors. For a grid of 230 V and 50 Hz, as the default parameters have, the built-in
  source differs from the one of the parameters by at most a nanovolt at any time.\<close>

theorem solver_top_refines_network:
  assumes "good_params p" "vsc_run (kernel_grid p) (gates @ [gate_data gate_in]) = Some (net, s)" "loaded net st" "same_state s st"
  shows "(\<exists>s'. vsc_step net s (gate_data gate_in) = (Inr (fault_seen s'), net, s') \<and>
    same_state s' (fst (solver_top gate_in out (fixed_of p) st)) \<and> loaded net (fst (solver_top gate_in out (fixed_of p) st)) \<and>
    (\<forall>i < 9. snd (solver_top gate_in out (fixed_of p) st) i = \<lparr>state_data = nodal_v s' i, state_last = (if i = 8 then 1 else 0)\<rparr>)) \<and>
    (V_grid_rms p = 230 \<and> f_grid p = 50 \<longrightarrow> (\<forall>t k. \<bar>v_src (kernel_grid p) t k - v_src p t k\<bar> \<le> 1 / 10 ^ 9))"
proof -
  have "good_params (kernel_grid p)" using assms(1) by simp
  from sim_ok_run_last [OF this assms(2)]
  have "net_ok net" "params net = kernel_grid p" "gate_factored net = gate_data gate_in" by (simp_all add: sim_ok_def)
  from solver_top_simulates [OF this assms(3,4) kernel_grid_simps(1,2), where out = out] kernel_grid_close [of p]
  show ?thesis unfolding kernel_grid_simps(3) by metis
qed

theorem solver_top_refines_network_witness:
  "\<exists>net s s' st. vsc_run (kernel_grid default_params) [0x15] = Some (net, s) \<and>
     vsc_step net s 0x15 = (Inr (fault_seen s'), net, s') \<and> same_state s st \<and>
     same_state s' (fst (solver_top \<lparr>gate_data = 0x15, gate_last = 1\<rparr> (\<lambda>_. \<lparr>state_data = 0, state_last = 0\<rparr>)
       (fixed_of default_params) st)) \<and>
     (\<forall>t k. \<bar>v_src (kernel_grid default_params) t k - v_src default_params t k\<bar> \<le> 1 / 10 ^ 9)"
proof -
  let ?p = "kernel_grid default_params"
  have p: "good_params default_params" "V_grid_rms default_params = 230 \<and> f_grid default_params = 50"
    by (simp_all add: good_params_def default_params_def)
  obtain net s where run: "vsc_run ?p ([] @ [gate_data \<lparr>gate_data = 0x15, gate_last = 1\<rparr>]) = Some (net, s)"
    using sim_ok_run [of ?p] p(1) by (metis kernel_grid_simps(4) surj_pair)
  let ?st = "\<lparr>s_L = LU_total net, s_U = LU_total net, s_piv = apply_pivots [0..<9] (piv net) (\<lambda>i. i), s_V = nodal_v s,
     s_hist = (\<lambda>i. if i < 3 then I_Lf_hist s i else if i < 6 then I_Cf_hist s (i - 3) else I_Lgrid_hist s (i - 6)), s_t = sim_time s\<rparr>"
  have st: "loaded net ?st" "same_state s ?st" by (simp_all add: loaded_def split_factors_def same_state_def)
  note step = solver_top_refines_network [OF p(1) run st, of "\<lambda>_. \<lparr>state_data = 0, state_last = 0\<rparr>"]
  have "vsc_run ?p [0x15] = Some (net, s)" using run by simp
  moreover from conjunct1 [OF step] obtain s' where "vsc_step net s 0x15 = (Inr (fault_seen s'), net, s')"
    "same_state s' (fst (solver_top \<lparr>gate_data = 0x15, gate_last = 1\<rparr> (\<lambda>_. \<lparr>state_data = 0, state_last = 0\<rparr>) (fixed_of default_params) ?st))"
    unfolding axis_gate.simps by blast
  moreover have "\<forall>t k. \<bar>v_src ?p t k - v_src default_params t k\<bar> \<le> 1 / 10 ^ 9"
    by (rule mp [OF conjunct2 [OF step] p(2)])
  ultimately show ?thesis using st(2) by blast
qed

end
