(* ===== verification/Hil_Model.thy ===== *)
theory Hil_Model
  imports Vsc_Network
begin

text \<open>
  \<^verbatim>\<open>hil/vsc_model.py\<close>: the reference model of the converter in Python, against which controllers are tested.
  It keeps its own parameters, companion models, conductance matrix and step. The factorisation and the
  substitution are the routines of SciPy and are parameters here; the numbers are real numbers, as in
  \<open>Vsc_Network\<close>. The last part shows that the model and the solver in C++ compute the same simulation.
\<close>

unbundle bit_operations_syntax

subsection \<open>Companion models\<close>

definition py_SolverParams :: solver_params where
  "py_SolverParams =
     \<lparr>dt = 50 / 10 ^ 6, L_f = 3 / 10 ^ 3, R_f = 1 / 10, C_f = 20 / 10 ^ 6, L_grid = 1 / 10 ^ 3, R_grid = 5 / 100,
      C_snub = 1 / 10 / 10 ^ 6, V_dc = 400, V_grid_rms = 230, f_grid = 50, G_on = 100, G_off = 1 / 10 ^ 6,
      V_rated = 400, R_src = 1 / 100\<rparr>"

definition py_make_inductor :: "real \<Rightarrow> real \<Rightarrow> real \<Rightarrow> real \<times> real" where
  "py_make_inductor L R h = (let denom = 2 * L + R * h in (h / denom, (2 * L - R * h) / denom))"

definition py_make_cap :: "real \<Rightarrow> real \<Rightarrow> real" where
  "py_make_cap C h = 2 * C / h"

definition py_inductor_history :: "real \<Rightarrow> real \<Rightarrow> real \<Rightarrow> real \<Rightarrow> real" where
  "py_inductor_history Geq bet i_L v_branch = Geq * v_branch + bet * i_L"

definition py_cap_history :: "real \<Rightarrow> real \<Rightarrow> real \<Rightarrow> real" where
  "py_cap_history GC i_C v_node = - i_C - GC * v_node"

definition py_stamp :: "matrix \<Rightarrow> nat \<Rightarrow> nat option \<Rightarrow> real \<Rightarrow> matrix" where
  "py_stamp G p m g =
     (let G = set_at G p p (G p p + g)
      in case m of
           None \<Rightarrow> G
         | Some m \<Rightarrow>
             let G = set_at G m m (G m m + g);
                 G = set_at G p m (G p m - g)
             in set_at G m p (G m p - g))"

text \<open>The switch at a bit of the gate word, which is a Python integer.\<close>

definition py_gate_bit :: "int \<Rightarrow> nat \<Rightarrow> bool" where
  "py_gate_bit gate b \<longleftrightarrow> drop_bit b gate AND 1 \<noteq> 0"

text \<open>One pass over the phases stamps all branches of a phase.\<close>

definition py_assemble_G :: "solver_params \<Rightarrow> int \<Rightarrow> matrix" where
  "py_assemble_G p gate =
     (let G_Lf = fst (py_make_inductor (L_f p) (R_f p) (dt p));
          G_Cf = py_make_cap (C_f p) (dt p);
          G_Lgrid = fst (py_make_inductor (L_grid p) (R_grid p) (dt p));
          G_vs = 1 / R_src p
      in foldl (\<lambda>G k.
           let G = py_stamp G k (Some (k + 3)) G_Lf;
               G = py_stamp G (k + 3) None G_Cf;
               G = py_stamp G (k + 3) (Some (k + 6)) G_Lgrid;
               G = py_stamp G (k + 6) None G_vs;
               G_T1 = (if py_gate_bit gate (2 * k) then G_on p else G_off p);
               G_T2 = (if py_gate_bit gate (2 * k + 1) then G_on p else G_off p)
           in py_stamp G k None (G_T1 + G_T2)) (\<lambda>_ _. 0) [0..<3])"

subsection \<open>State and network\<close>

record py_state =
  py_v :: vec
  py_i_Lf :: vec
  py_i_Cf :: vec
  py_i_Lgrid :: vec
  py_I_Lf_hist :: vec
  py_I_Cf_hist :: vec
  py_I_Lgrid_hist :: vec
  py_I_snub_hist :: vec
  py_t :: real
  py_gate :: int
  py_fault :: bool

definition py_state_new :: py_state where
  "py_state_new =
     \<lparr>py_v = \<lambda>_. 0, py_i_Lf = \<lambda>_. 0, py_i_Cf = \<lambda>_. 0, py_i_Lgrid = \<lambda>_. 0, py_I_Lf_hist = \<lambda>_. 0,
      py_I_Cf_hist = \<lambda>_. 0, py_I_Lgrid_hist = \<lambda>_. 0, py_I_snub_hist = \<lambda>_. 0, py_t = 0, py_gate = 0,
      py_fault = False\<rparr>"

text \<open>The factors, of the type of SciPy's result, are absent until the first step.\<close>

record 'f py_network =
  py_p :: solver_params
  py_gate_factored :: int
  py_G_lu :: "'f option"
  py_G :: matrix

definition py_network_new :: "solver_params option \<Rightarrow> 'f py_network" where
  "py_network_new p =
     (let p = (case p of Some p \<Rightarrow> p | None \<Rightarrow> py_SolverParams)
      in \<lparr>py_p = p, py_gate_factored = - 1, py_G_lu = None, py_G = py_assemble_G p 0\<rparr>)"

definition py_get_lu :: "(matrix \<Rightarrow> 'f) \<Rightarrow> int \<Rightarrow> 'f py_network \<Rightarrow> 'f option \<times> 'f py_network" where
  "py_get_lu lu_fac gate net =
     (let net = (if gate \<noteq> py_gate_factored net
                 then let G = py_assemble_G (py_p net) gate
                      in net\<lparr>py_G := G, py_G_lu := Some (lu_fac G), py_gate_factored := gate\<rparr>
                 else net)
      in (py_G_lu net, net))"

definition py_injections :: "solver_params \<Rightarrow> py_state \<Rightarrow> int \<Rightarrow> vec" where
  "py_injections p s gate =
     (let V_grid_peak = V_grid_rms p * sqrt 2;
          G_vs = 1 / R_src p
      in foldl (\<lambda>I k.
           let I = I(k := I k - py_I_Lf_hist s k);
               I = I(k + 3 := I (k + 3) + py_I_Lf_hist s k);
               I = I(k + 3 := I (k + 3) - py_I_Cf_hist s k);
               I = I(k + 3 := I (k + 3) - py_I_Lgrid_hist s k);
               I = I(k + 6 := I (k + 6) + py_I_Lgrid_hist s k);
               phase_off = real k * (- (2 * M_PI) / 3);
               v_source = V_grid_peak * sin (2 * M_PI * f_grid p * py_t s + phase_off);
               I = I(k + 6 := I (k + 6) + G_vs * v_source);
               G_T1 = (if py_gate_bit gate (2 * k) then G_on p else G_off p)
           in I(k := I k + G_T1 * V_dc p)) (\<lambda>_. 0) [0..<3])"

definition py_update_branches :: "solver_params \<Rightarrow> vec \<Rightarrow> py_state \<Rightarrow> nat \<Rightarrow> py_state" where
  "py_update_branches p V s k =
     (let (G_Lf_eq, beta_Lf) = py_make_inductor (L_f p) (R_f p) (dt p);
          (G_Lgrid_eq, beta_Lgrid) = py_make_inductor (L_grid p) (R_grid p) (dt p);
          G_Cf = py_make_cap (C_f p) (dt p);
          v_Lf = V k - V (k + 3);
          s = s\<lparr>py_i_Lf := (py_i_Lf s)(k := G_Lf_eq * v_Lf + py_I_Lf_hist s k)\<rparr>;
          s = s\<lparr>py_I_Lf_hist := (py_I_Lf_hist s)(k := py_inductor_history G_Lf_eq beta_Lf (py_i_Lf s k) v_Lf)\<rparr>;
          s = s\<lparr>py_i_Cf := (py_i_Cf s)(k := G_Cf * V (k + 3) + py_I_Cf_hist s k)\<rparr>;
          s = s\<lparr>py_I_Cf_hist := (py_I_Cf_hist s)(k := py_cap_history G_Cf (py_i_Cf s k) (V (k + 3)))\<rparr>;
          v_Lg = V (k + 3) - V (k + 6);
          s = s\<lparr>py_i_Lgrid := (py_i_Lgrid s)(k := G_Lgrid_eq * v_Lg + py_I_Lgrid_hist s k)\<rparr>
      in s\<lparr>py_I_Lgrid_hist := (py_I_Lgrid_hist s)(k := py_inductor_history G_Lgrid_eq beta_Lgrid (py_i_Lgrid s k) v_Lg)\<rparr>)"

text \<open>
  A step. Without factors (a first step with gate word \<open>-1\<close>, which the network takes for factorised) the
  substitution raises, after the gate word has been recorded.
\<close>

definition py_step ::
  "(matrix \<Rightarrow> 'f) \<Rightarrow> ('f \<Rightarrow> vec \<Rightarrow> vec) \<Rightarrow> 'f py_network \<Rightarrow> py_state \<Rightarrow> int \<Rightarrow> (string + bool) \<times> 'f py_network \<times> py_state" where
  "py_step lu_fac lu_slv net s gate =
     (let p = py_p net;
          (lu, net) = py_get_lu lu_fac gate net;
          s = s\<lparr>py_gate := gate\<rparr>;
          I_N = py_injections p s gate
      in case lu of
           None \<Rightarrow> (Inl ''TypeError'', net, s)
         | Some lu \<Rightarrow>
             let V_new = lu_slv lu I_N;
                 s = s\<lparr>py_fault := list_ex (\<lambda>i. 2 * V_rated p < \<bar>V_new i\<bar>) [0..<9]\<rparr>;
                 s = foldl (py_update_branches p V_new) s [0..<3];
                 s = s\<lparr>py_v := foldl (\<lambda>v i. v(i := V_new i)) (py_v s) [0..<9]\<rparr>;
                 s = s\<lparr>py_t := py_t s + dt p\<rparr>
             in (Inr (py_fault s), net, s))"

text \<open>A simulation by a list of gate words.\<close>

definition py_advance ::
  "(matrix \<Rightarrow> 'f) \<Rightarrow> ('f \<Rightarrow> vec \<Rightarrow> vec) \<Rightarrow> 'f py_network \<times> py_state \<Rightarrow> int \<Rightarrow> ('f py_network \<times> py_state) option" where
  "py_advance lu_fac lu_slv ns gate =
     (case py_step lu_fac lu_slv (fst ns) (snd ns) gate of (Inr _, net, s) \<Rightarrow> Some (net, s) | (Inl _, _, _) \<Rightarrow> None)"

definition py_run ::
  "(matrix \<Rightarrow> 'f) \<Rightarrow> ('f \<Rightarrow> vec \<Rightarrow> vec) \<Rightarrow> solver_params \<Rightarrow> int list \<Rightarrow> ('f py_network \<times> py_state) option" where
  "py_run lu_fac lu_slv p gates = fold_opt (py_advance lu_fac lu_slv) (py_network_new (Some p), py_state_new) gates"

subsection \<open>Specification\<close>

text \<open>
  What is relied on of SciPy: for a matrix with a dominant diagonal, which is regular, the substitution
  with its factors gives a solution of the equations.
\<close>

definition scipy_lu :: "(matrix \<Rightarrow> 'f) \<Rightarrow> ('f \<Rightarrow> vec \<Rightarrow> vec) \<Rightarrow> bool" where
  "scipy_lu lu_fac lu_slv \<longleftrightarrow>
     (\<forall>A b. dominant (1 / 10 ^ 15) 9 0 A \<longrightarrow> (\<forall>i < 9. (\<Sum>j = 0..<9. A i j * lu_slv (lu_fac A) b j) = b i))"

text \<open>The state of the C++ solver that a state of the model stands for.\<close>

definition solver_state :: "py_state \<Rightarrow> vsc_state" where
  "solver_state s =
     \<lparr>nodal_v = py_v s, i_Lf = py_i_Lf s, i_Cf = py_i_Cf s, i_Lgrid = py_i_Lgrid s, I_Lf_hist = py_I_Lf_hist s,
      I_Cf_hist = py_I_Cf_hist s, I_Lgrid_hist = py_I_Lgrid_hist s, I_snub_hist = py_I_snub_hist s,
      sim_time = py_t s, gate_bits = of_int (py_gate s), fault_seen = py_fault s\<rparr>"

subsection \<open>A dominant matrix has at most one solution\<close>

lemma dominant_kernel:
  assumes "dominant d n 0 A" "0 < d" "\<forall>i < n. (\<Sum>j = 0..<n. A i j * x j) = 0" "i < n"
  shows "x i = 0"
proof -
  have row: "A i i * \<bar>x i\<bar> \<le> (\<Sum>j \<in> {0..<n} - {i}. \<bar>A i j\<bar> * \<bar>x j\<bar>)" if i: "i < n" for i
  proof -
    have "(\<Sum>j = 0..<n. A i j * x j) = A i i * x i + (\<Sum>j \<in> {0..<n} - {i}. A i j * x j)"
      using i by (intro sum.remove) simp_all
    then have "\<bar>A i i * x i\<bar> = \<bar>\<Sum>j \<in> {0..<n} - {i}. A i j * x j\<bar>" using assms(3) i by simp
    also have "\<dots> \<le> (\<Sum>j \<in> {0..<n} - {i}. \<bar>A i j * x j\<bar>)" by (rule sum_abs)
    finally show ?thesis using dominant_diagonal [OF assms(1), of i] assms(2) i by (simp add: abs_mult)
  qed
  have "(\<Sum>j = 0..<n. (d + (\<Sum>i \<in> {0..<n} - {j}. \<bar>A i j\<bar>)) * \<bar>x j\<bar>) \<le> (\<Sum>i = 0..<n. A i i * \<bar>x i\<bar>)"
    using dominantD [OF assms(1)] by (intro sum_mono mult_right_mono) auto
  also have "\<dots> \<le> (\<Sum>i = 0..<n. \<Sum>j \<in> {0..<n} - {i}. \<bar>A i j\<bar> * \<bar>x j\<bar>)"
    using row by (intro sum_mono) simp
  also have "\<dots> = (\<Sum>j = 0..<n. \<Sum>i \<in> {0..<n} - {j}. \<bar>A i j\<bar> * \<bar>x j\<bar>)"
  proof -
    have off: "(\<Sum>j \<in> {0..<n} - {i}. f j) = (\<Sum>j = 0..<n. if j = i then 0 else f j)" for f :: "nat \<Rightarrow> real" and i
      by (rule sum.mono_neutral_cong_left) auto
    show ?thesis unfolding off by (subst sum.swap) (intro sum.cong refl, simp)
  qed
  also have "\<dots> = (\<Sum>j = 0..<n. (\<Sum>i \<in> {0..<n} - {j}. \<bar>A i j\<bar>) * \<bar>x j\<bar>)" by (simp add: sum_distrib_right)
  finally have "(\<Sum>j = 0..<n. d * \<bar>x j\<bar>) \<le> 0" by (simp add: distrib_right sum.distrib)
  moreover have "d * \<bar>x i\<bar> \<le> (\<Sum>j = 0..<n. d * \<bar>x j\<bar>)"
    using assms(2,4) by (intro member_le_sum) auto
  ultimately have "d * \<bar>x i\<bar> \<le> 0" by linarith
  then show ?thesis using assms(2) by (simp add: mult_le_0_iff)
qed

lemma dominant_unique:
  assumes "dominant d n 0 A" "0 < d" "\<forall>i < n. (\<Sum>j = 0..<n. A i j * x j) = b i" "\<forall>i < n. (\<Sum>j = 0..<n. A i j * y j) = b i" "i < n"
  shows "x i = y i"
  using dominant_kernel [OF assms(1,2), of "\<lambda>j. x j - y j"] assms(3-5)
  by (simp add: right_diff_distrib sum_subtractf)

subsection \<open>The model and the solver have the same circuit\<close>

lemma py_SolverParams_eq: "py_SolverParams = default_params"
  by (simp add: py_SolverParams_def default_params_def)

lemma py_stamp_eq: "py_stamp = stamp"
  by (intro ext) (simp add: py_stamp_def stamp_def)

lemma py_make_inductor_eq:
  "py_make_inductor L R h = (G_eq (make_inductor L R h), beta (make_inductor L R h))"
  by (simp add: py_make_inductor_def make_inductor_def Let_def)

lemma py_make_cap_eq: "py_make_cap C h = G_C (make_capacitor C h)"
  by (simp add: py_make_cap_def make_capacitor_def)

lemma and_one_bit_int: "drop_bit b x AND 1 \<noteq> 0 \<longleftrightarrow> bit x b" for x :: int
  by (simp add: and_one_eq bit_iff_odd_drop_bit odd_iff_mod_2_eq_one)

lemma and_one_bit_word: "drop_bit b x AND 1 \<noteq> 0 \<longleftrightarrow> bit x b" for x :: u8
  by (simp add: and_one_eq bit_iff_odd_drop_bit odd_iff_mod_2_eq_one)

lemma py_gate_bit_uint: "py_gate_bit (uint gate) b = igbt_on gate b"
  unfolding py_gate_bit_def igbt_on_def and_one_bit_int and_one_bit_word
  by (auto simp: bit_uint_iff dest: bit_imp_le_length)

lemma py_igbt: "(if py_gate_bit (uint gate) b then G_on p else G_off p) = G_igbt p gate b"
  by (simp add: G_igbt_def py_gate_bit_uint)

text \<open>The branches are stamped in another order, which does not matter for the sums.\<close>

lemma py_assemble_eq: "py_assemble_G p (uint gate) = assemble p gate"
proof (intro ext)
  fix i j
  have l: "[3..<6] = [3, 4, 5 :: nat]" "[6..<9] = [6, 7, 8 :: nat]" by (simp_all add: upt_rec)
  show "py_assemble_G p (uint gate) i j = assemble p gate i j"
    unfolding py_assemble_G_def assemble_def Let_def py_stamp_eq py_make_inductor_eq py_make_cap_eq py_igbt fst_conv three l
    by (simp add: stamp_ground_apply stamp_branch_apply ac_simps split del: if_split)
qed

lemma py_injections_eq: "py_injections p s (uint gate) = injections p (solver_state s) gate"
  unfolding py_injections_def injections_def Let_def py_igbt v_src_def
  by (simp add: solver_state_def)

lemma py_update_branches_eq:
  "solver_state (py_update_branches p V s k) = update_branches p V (solver_state s) k"
  by (simp add: py_update_branches_def update_branches_def Let_def py_make_inductor_eq py_make_cap_eq
      py_inductor_history_def py_cap_history_def inductor_history_def capacitor_history_def solver_state_def)

lemma py_update_loop_eq:
  "solver_state (foldl (py_update_branches p V) s ks) = foldl (update_branches p V) (solver_state s) ks"
  by (induction ks arbitrary: s) (simp_all add: py_update_branches_eq)

lemma py_update_loop_frame:
  "py_fault (foldl (py_update_branches p V) s ks) = py_fault s"
  by (induction ks arbitrary: s) (simp_all add: py_update_branches_def py_make_inductor_eq Let_def)

lemma solved_step_cong:
  assumes "\<forall>i < 9. V i = V' i"
  shows "solved_step p gate V s = solved_step p gate V' s"
proof -
  have "foldl (update_branches p V) r [0..<3] = foldl (update_branches p V') r [0..<3]" for r
  proof (rule foldl_cong)
    fix s k assume "k \<in> set [0..<3]"
    then have "V k = V' k" "V (k + 3) = V' (k + 3)" "V (k + 6) = V' (k + 6)" using assms by auto
    then show "update_branches p V s k = update_branches p V' s k" by (simp add: update_branches_def)
  qed simp_all
  moreover have "foldl (\<lambda>v i. v(i := V i)) r [0..<9] = foldl (\<lambda>v i. v(i := V' i)) r [0..<9]" for r
    by (rule foldl_cong) (use assms in auto)
  moreover have "detect_fault l V [0..<9] = detect_fault l V' [0..<9]" for l
    using assms by (auto simp: detect_fault_iff simp del: upt_Suc)
  ultimately show ?thesis by (simp only: solved_step_def)
qed

subsection \<open>The model and the solver compute the same\<close>

definition py_ok :: "(matrix \<Rightarrow> 'f) \<Rightarrow> solver_params \<Rightarrow> 'f py_network \<Rightarrow> bool" where
  "py_ok lu_fac p net \<longleftrightarrow> py_p net = p \<and>
     (py_gate_factored net \<noteq> - 1 \<longrightarrow> py_G_lu net = Some (lu_fac (py_assemble_G p (py_gate_factored net))))"

lemma py_get_lu_ok:
  assumes "py_ok lu_fac p net"
  obtains net' where "py_get_lu lu_fac (uint gate) net = (Some (lu_fac (assemble p gate)), net')" "py_ok lu_fac p net'"
proof -
  have "uint gate \<noteq> - 1" using uint_ge_0 [of gate] by linarith
  then have "fst (py_get_lu lu_fac (uint gate) net) = Some (lu_fac (assemble p gate)) \<and> py_ok lu_fac p (snd (py_get_lu lu_fac (uint gate) net))"
    using assms by (cases "py_gate_factored net = uint gate") (simp_all add: py_get_lu_def py_ok_def py_assemble_eq Let_def)
  then show thesis by (intro that [of "snd (py_get_lu lu_fac (uint gate) net)"]) (simp_all add: prod_eq_iff)
qed

lemma solver_state_gate: "solver_state (s\<lparr>py_gate := g\<rparr>) = (solver_state s)\<lparr>gate_bits := of_int g\<rparr>"
  by (simp add: solver_state_def)

lemma py_step_solved:
  assumes "py_ok lu_fac p net"
  obtains net' s' where "py_step lu_fac lu_slv net s (uint gate) = (Inr (py_fault s'), net', s')" "py_ok lu_fac p net'"
    "solver_state s' = solved_step p gate (lu_slv (lu_fac (assemble p gate)) (injections p (solver_state s) gate)) (solver_state s)"
proof -
  obtain net' where lu: "py_get_lu lu_fac (uint gate) net = (Some (lu_fac (assemble p gate)), net')" "py_ok lu_fac p net'"
    by (rule py_get_lu_ok [OF assms])
  have p: "py_p net = p" using assms by (simp add: py_ok_def)
  define V where "V = lu_slv (lu_fac (assemble p gate)) (injections p (solver_state s) gate)"
  define nine where "nine = [0..<9 :: nat]"
  define s1 where "s1 = s\<lparr>py_gate := uint gate, py_fault := list_ex (\<lambda>i. 2 * V_rated p < \<bar>V i\<bar>) nine\<rparr>"
  define s2 where "s2 = foldl (py_update_branches p V) s1 [0..<3]"
  let ?s3 = "s2\<lparr>py_v := foldl (\<lambda>v i. v(i := V i)) (py_v s2) nine\<rparr>"
  let ?s' = "?s3\<lparr>py_t := py_t ?s3 + dt p\<rparr>"
  have inj: "py_injections p (s\<lparr>py_gate := uint gate\<rparr>) (uint gate) = injections p (solver_state s) gate"
    unfolding py_injections_eq solver_state_gate by (rule injections_gate)
  have "py_step lu_fac lu_slv net s (uint gate) = (Inr (py_fault ?s'), net', ?s')"
    unfolding py_step_def lu(1) p Let_def prod.case option.case inj V_def [symmetric] nine_def [symmetric] s1_def s2_def
    by (rule refl)
  moreover have s1: "solver_state s1 = (solver_state s)\<lparr>gate_bits := gate, fault_seen := detect_fault (2 * V_rated p) V nine\<rparr>"
    by (simp add: solver_state_def s1_def detect_fault_iff list_ex_iff)
  have "solver_state ?s' = (solver_state s2)\<lparr>nodal_v := foldl (\<lambda>v i. v(i := V i)) (nodal_v (solver_state s2)) nine,
      sim_time := sim_time (solver_state s2) + dt p\<rparr>"
    by (simp add: solver_state_def)
  then have "solver_state ?s' = solved_step p gate V (solver_state s)"
    unfolding s2_def py_update_loop_eq s1 by (simp add: solved_step_def Let_def nine_def [symmetric])
  ultimately show thesis using lu(2) that V_def by blast
qed

lemma scipy_solution:
  assumes "scipy_lu lu_fac lu_slv" "good_params p" "\<forall>i < 9. leaving 9 (assemble p gate) V i = b i" "i < 9"
  shows "lu_slv (lu_fac (assemble p gate)) b i = V i"
proof -
  have d: "dominant (1 / 10 ^ 15) 9 0 (assemble p gate)"
    using grounded_assemble [OF assms(2), of gate] grounded_dominant by blast
  have s: "\<forall>i < 9. (\<Sum>j = 0..<9. assemble p gate i j * lu_slv (lu_fac (assemble p gate)) b j) = b i"
    by (rule assms(1) [unfolded scipy_lu_def, THEN spec, THEN spec, THEN mp, OF d])
  have pos: "0 < 1 / (10 ^ 15 :: real)" by simp
  show ?thesis by (rule dominant_unique [OF d pos s assms(3) [unfolded leaving_def] assms(4)])
qed

lemma py_step_simulates:
  assumes "scipy_lu lu_fac lu_slv" "good_params p" "py_ok lu_fac p pnet" "sim_ok p (net, solver_state s)"
  obtains net' pnet' s' where "py_step lu_fac lu_slv pnet s (uint gate) = (Inr (py_fault s'), pnet', s')"
    "vsc_step net (solver_state s) gate = (Inr (py_fault s'), net', solver_state s')"
    "py_ok lu_fac p pnet'" "sim_ok p (net', solver_state s')"
proof -
  have ok: "good_params (params net)" "net_ok net" "params net = p" using assms by (simp_all add: sim_ok_def)
  obtain net' V where v: "vsc_step net (solver_state s) gate =
        (Inr (fault_seen (solved_step p gate V (solver_state s))), net', solved_step p gate V (solver_state s))"
      "net_ok net'" "params net' = p" "\<forall>i < 9. leaving 9 (assemble p gate) V i = injections p (solver_state s) gate i"
    using vsc_step_ok [OF ok(1,2), of "solver_state s" gate] ok(3) by metis
  obtain pnet' s' where py: "py_step lu_fac lu_slv pnet s (uint gate) = (Inr (py_fault s'), pnet', s')" "py_ok lu_fac p pnet'"
      "solver_state s' = solved_step p gate (lu_slv (lu_fac (assemble p gate)) (injections p (solver_state s) gate)) (solver_state s)"
    by (rule py_step_solved [OF assms(3)])
  have "solver_state s' = solved_step p gate V (solver_state s)"
    unfolding py(3) by (rule solved_step_cong) (use scipy_solution [OF assms(1,2) v(4)] in blast)
  moreover have "fault_seen (solver_state s') = py_fault s'" by (simp add: solver_state_def)
  ultimately show thesis using that [OF py(1)] v py(2) solved_step_history by (simp add: sim_ok_def)
qed

lemma solver_state_new: "solver_state py_state_new = vsc_state_new"
  by (simp add: solver_state_def py_state_new_def vsc_state_new_def)

lemma py_run_simulates:
  assumes "scipy_lu lu_fac lu_slv" "good_params p"
  obtains net pnet s where "vsc_run p gates = Some (net, solver_state s)" "py_run lu_fac lu_slv p (map uint gates) = Some (pnet, s)"
    "sim_ok p (net, solver_state s)" "py_ok lu_fac p pnet"
proof -
  obtain net0 s0 where r: "vsc_run p [] = Some (net0, s0)" "sim_ok p (net0, s0)"
    by (rule sim_ok_run [OF assms(2)])
  then have n: "vsc_run p [] = Some (net0, solver_state py_state_new)" "sim_ok p (net0, solver_state py_state_new)"
    by (simp_all add: vsc_run_def solver_state_new split: prod.splits option.splits)
  have start: "py_ok lu_fac p (py_network_new (Some p))" by (simp add: py_ok_def py_network_new_def)
  have "\<exists>net pnet s. vsc_run p gates = Some (net, solver_state s) \<and> py_run lu_fac lu_slv p (map uint gates) = Some (pnet, s) \<and>
      sim_ok p (net, solver_state s) \<and> py_ok lu_fac p pnet"
  proof (induction gates rule: rev_induct)
    case Nil
    then show ?case using n start by (simp add: py_run_def)
  next
    case (snoc g gs)
    then obtain net pnet s where run: "vsc_run p gs = Some (net, solver_state s)"
        "py_run lu_fac lu_slv p (map uint gs) = Some (pnet, s)" "sim_ok p (net, solver_state s)" "py_ok lu_fac p pnet" by blast
    obtain net' pnet' s' where "py_step lu_fac lu_slv pnet s (uint g) = (Inr (py_fault s'), pnet', s')"
        "vsc_step net (solver_state s) g = (Inr (py_fault s'), net', solver_state s')"
        "py_ok lu_fac p pnet'" "sim_ok p (net', solver_state s')"
      by (rule py_step_simulates [OF assms run(4,3)])
    then show ?case using run
      by (simp add: vsc_run_snoc vsc_advance_def py_run_def fold_opt_append py_advance_def)
  qed
  then show thesis using that by blast
qed

text \<open>
  The model marks "nothing factorised" by \<open>-1\<close>, which is also a Python gate word: a first step with it raises.
\<close>

lemma py_first_gate_minus_one:
  "fst (py_step lu_fac lu_slv (py_network_new p) s (- 1)) = Inl ''TypeError''"
  by (simp add: py_step_def py_get_lu_def py_network_new_def Let_def)

text \<open>SciPy's routines can be what is asked of them: the solver's own routines are.\<close>

definition own_lu :: "matrix \<Rightarrow> matrix \<times> (nat \<Rightarrow> nat)" where
  "own_lu A = snd (lu_factor 9 (A, \<lambda>_. 0))"

definition own_solve :: "matrix \<times> (nat \<Rightarrow> nat) \<Rightarrow> vec \<Rightarrow> vec" where
  "own_solve f b = lu_solve 9 (fst f) (snd f) b (\<lambda>_. 0)"

lemma own_scipy: "scipy_lu own_lu own_solve"
  unfolding scipy_lu_def
proof (intro allI impI)
  fix A b i assume a: "dominant (1 / 10 ^ 15) 9 0 A" "i < (9 :: nat)"
  obtain LU pivot where f: "lu_factor 9 (A, \<lambda>_. 0) = (None, LU, pivot)"
    by (rule dominant_lu_factor [OF a(1) order_refl])
  show "(\<Sum>j = 0..<9. A i j * own_solve (own_lu A) b j) = b i"
    unfolding own_lu_def own_solve_def f prod.sel by (rule lu_solve_solves [OF f a(2)])
qed

subsection \<open>Properties\<close>

text \<open>
  C11. The Python model and the C++ solver agree: with the same parameters and any sequence of gate words,
  neither fails and they reach the same state, voltage for voltage and current for current, whatever
  factorisation SciPy uses.\<close>

theorem python_model_equals_solver:
  assumes "scipy_lu lu_fac lu_slv" "good_params p"
  shows "\<exists>net pnet s. vsc_run p gates = Some (net, solver_state s) \<and> py_run lu_fac lu_slv p (map uint gates) = Some (pnet, s)"
  by (rule py_run_simulates [OF assms, of gates]) blast

theorem python_model_equals_solver_witness:
  "scipy_lu own_lu own_solve \<and> good_params py_SolverParams \<and>
   (\<exists>net pnet s. vsc_run py_SolverParams [0x15, 0x2A] = Some (net, solver_state s) \<and>
      py_run own_lu own_solve py_SolverParams [0x15, 0x2A] = Some (pnet, s))"
proof -
  have g: "good_params py_SolverParams" by (simp add: good_params_def py_SolverParams_def)
  from python_model_equals_solver [OF own_scipy g, of "[0x15, 0x2A]"] show ?thesis using g own_scipy by simp
qed

end
