(* ===== verification/Hil_Control.thy ===== *)
theory Hil_Control
  imports Hil_Model
begin

text \<open>
  \<^verbatim>\<open>hil/controller.py\<close> and \<^verbatim>\<open>hil/analysis.py\<close>: the current controller, the modulator, the current reference, the
  loop that closes them over the model of the converter, and the evaluation of the recorded signals. Numbers
  are real numbers, and a list that is indexed out of range raises. An object keeps what a call changed
  before it raised.
\<close>

unbundle bit_operations_syntax

datatype py_error = IndexError | ValueError | ZeroDivisionError | OverflowError | Step_error string

subsection \<open>PiController\<close>

record pi_controller =
  k_p :: real
  k_i :: real
  pi_dt :: real
  x_max :: real
  pi_x :: "real list"

definition pi_new :: "real \<Rightarrow> real \<Rightarrow> real \<Rightarrow> real \<Rightarrow> pi_controller" where
  "pi_new kp ki h xm = \<lparr>k_p = kp, k_i = ki, pi_dt = h, x_max = xm, pi_x = [0, 0, 0]\<rparr>"

fun pi_phases ::
  "real list \<Rightarrow> real list \<Rightarrow> nat list \<Rightarrow> pi_controller \<Rightarrow> real list \<Rightarrow> (py_error + real list) \<times> pi_controller" where
  "pi_phases i_ref i_meas [] c u = (Inr u, c)"
| "pi_phases i_ref i_meas (k # ks) c u =
     (if length i_ref \<le> k \<or> length i_meas \<le> k \<or> length (pi_x c) \<le> k then (Inl IndexError, c)
      else
        let e = i_ref ! k - i_meas ! k;
            x_new = pi_x c ! k + pi_dt c * e;
            x_new = max (- x_max c) (min (x_max c) x_new);
            c = c\<lparr>pi_x := (pi_x c)[k := x_new]\<rparr>;
            u_k = k_p c * e + k_i c * x_new
        in pi_phases i_ref i_meas ks c (u @ [max (- 1) (min 1 u_k)]))"

definition pi_step :: "real list \<Rightarrow> real list \<Rightarrow> pi_controller \<Rightarrow> (py_error + real list) \<times> pi_controller" where
  "pi_step i_ref i_meas c = pi_phases i_ref i_meas [0..<3] c []"

subsection \<open>SpwmModulator\<close>

record spwm_modulator =
  sp_dt :: real
  carrier_period :: real
  carrier_t :: real

definition spwm_new :: "real \<Rightarrow> real \<Rightarrow> py_error + spwm_modulator" where
  "spwm_new h carrier_freq =
     (if carrier_freq = 0 then Inl ZeroDivisionError
      else let period = 1 / carrier_freq
           in Inr \<lparr>sp_dt = h, carrier_period = period, carrier_t = 25 / 100 * period\<rparr>)"

text \<open>The operator \<^verbatim>\<open>%\<close> of Python, whose result has the sign of the divisor.\<close>

definition py_mod :: "real \<Rightarrow> real \<Rightarrow> real" where
  "py_mod a b = a - b * of_int \<lfloor>a / b\<rfloor>"

definition carrier :: "spwm_modulator \<Rightarrow> real" where
  "carrier m =
     (let phi = py_mod (carrier_t m) (carrier_period m) / carrier_period m
      in if phi < 1 / 2 then 4 * phi - 1 else 3 - 4 * phi)"

fun gate_loop :: "real \<Rightarrow> real list \<Rightarrow> nat list \<Rightarrow> int \<Rightarrow> py_error + int" where
  "gate_loop c u [] gate = Inr gate"
| "gate_loop c u (k # ks) gate =
     (if length u \<le> k then Inl IndexError
      else if u ! k > c then gate_loop c u ks (gate OR push_bit (2 * k) 1)
      else gate_loop c u ks (gate OR push_bit (2 * k + 1) 1))"

definition modulate :: "real list \<Rightarrow> spwm_modulator \<Rightarrow> (py_error + int) \<times> spwm_modulator" where
  "modulate u m =
     (let c = carrier m;
          m = m\<lparr>carrier_t := carrier_t m + sp_dt m\<rparr>
      in (gate_loop c u [0..<3] 0, m))"

subsection \<open>The current reference\<close>

definition make_i_ref :: "real \<Rightarrow> real \<Rightarrow> real \<Rightarrow> real \<Rightarrow> py_error + real list" where
  "make_i_ref t I_rated f ramp_s =
     (if ramp_s = 0 then Inl ZeroDivisionError
      else
        let amp = min 1 (t / ramp_s) * I_rated
        in Inr [amp * sin (2 * M_PI * f * t),
                amp * sin (2 * M_PI * f * t - 2 * M_PI / 3),
                amp * sin (2 * M_PI * f * t + 2 * M_PI / 3)])"

subsection \<open>The closed loop\<close>

record 'f hil_loop =
  h_net :: "'f py_network"
  h_s :: py_state
  h_pi :: pi_controller
  h_spwm :: spwm_modulator
  v_cap_a :: "real list"
  i_Lf_a :: "real list"
  i_ref_a :: "real list"

definition hil_loop_new :: "solver_params \<Rightarrow> py_error + 'f hil_loop" where
  "hil_loop_new p =
     (case spwm_new (dt p) (10 * 10 ^ 3) of
        Inl e \<Rightarrow> Inl e
      | Inr m \<Rightarrow> Inr \<lparr>h_net = py_network_new (Some p), h_s = py_state_new, h_pi = pi_new (1 / 2) 20 (dt p) 5,
          h_spwm = m, v_cap_a = [], i_Lf_a = [], i_ref_a = []\<rparr>)"

definition hil_iteration ::
  "(matrix \<Rightarrow> 'f) \<Rightarrow> ('f \<Rightarrow> vec \<Rightarrow> vec) \<Rightarrow> solver_params \<Rightarrow> real \<Rightarrow> 'f hil_loop \<Rightarrow> py_error + 'f hil_loop \<times> int" where
  "hil_iteration lu_fac lu_slv p i_rated_amp h =
     (case make_i_ref (py_t (h_s h)) i_rated_amp (f_grid p) (4 / 100) of
        Inl e \<Rightarrow> Inl e
      | Inr i_ref \<Rightarrow>
          (case pi_step i_ref (map (py_i_Lf (h_s h)) [0..<3]) (h_pi h) of
             (Inl e, _) \<Rightarrow> Inl e
           | (Inr u, c) \<Rightarrow>
               (case modulate u (h_spwm h) of
                  (Inl e, _) \<Rightarrow> Inl e
                | (Inr gate, m) \<Rightarrow>
                    (case py_step lu_fac lu_slv (h_net h) (h_s h) gate of
                       (Inl e, _) \<Rightarrow> Inl (Step_error e)
                     | (Inr _, net, s) \<Rightarrow>
                         Inr (\<lparr>h_net = net, h_s = s, h_pi = c, h_spwm = m, v_cap_a = v_cap_a h @ [py_v s 3],
                               i_Lf_a = i_Lf_a h @ [py_i_Lf s 0], i_ref_a = i_ref_a h @ [i_ref ! 0]\<rparr>, gate)))))"

text \<open>The loop runs \<open>n\<close> iterations; the gate words it applied are kept beside its state.\<close>

fun hil_iterate ::
  "(matrix \<Rightarrow> 'f) \<Rightarrow> ('f \<Rightarrow> vec \<Rightarrow> vec) \<Rightarrow> solver_params \<Rightarrow> real \<Rightarrow> nat \<Rightarrow> 'f hil_loop \<Rightarrow> int list \<Rightarrow> py_error + 'f hil_loop \<times> int list" where
  "hil_iterate lu_fac lu_slv p amp 0 h gates = Inr (h, gates)"
| "hil_iterate lu_fac lu_slv p amp (Suc n) h gates =
     (case hil_iteration lu_fac lu_slv p amp h of
        Inl e \<Rightarrow> Inl e
      | Inr (h, gate) \<Rightarrow> hil_iterate lu_fac lu_slv p amp n h (gates @ [gate]))"

definition run_loop ::
  "(matrix \<Rightarrow> 'f) \<Rightarrow> ('f \<Rightarrow> vec \<Rightarrow> vec) \<Rightarrow> nat \<Rightarrow> real \<Rightarrow> solver_params option \<Rightarrow> py_error + 'f hil_loop \<times> int list" where
  "run_loop lu_fac lu_slv n_steps i_rated_amp prm =
     (let p = (case prm of Some p \<Rightarrow> p | None \<Rightarrow> py_SolverParams)
      in case hil_loop_new p of Inl e \<Rightarrow> Inl e | Inr h \<Rightarrow> hil_iterate lu_fac lu_slv p i_rated_amp n_steps h [])"

subsection \<open>Analysis\<close>

text \<open>The mean of an empty array is NaN, and so is its root.\<close>

definition compute_rms :: "real list \<Rightarrow> double" where
  "compute_rms v = (if v = [] then NaN else Fin (sqrt (sum_list (map (\<lambda>x. x ^ 2) v) / real (length v))))"

text \<open>
  Python's \<^verbatim>\<open>all\<close> and the search stop early, so an index out of range raises only if the search gets there.
\<close>

fun all_within :: "real list \<Rightarrow> real list \<Rightarrow> real \<Rightarrow> nat list \<Rightarrow> py_error + bool" where
  "all_within signal ref tol [] = Inr True"
| "all_within signal ref tol (j # js) =
     (if length signal \<le> j \<or> length ref \<le> j then Inl IndexError
      else if \<bar>signal ! j - ref ! j\<bar> < tol then all_within signal ref tol js
      else Inr False)"

fun settle_search :: "real list \<Rightarrow> real list \<Rightarrow> real \<Rightarrow> int \<Rightarrow> nat list \<Rightarrow> py_error + nat option" where
  "settle_search signal ref tol consecutive [] = Inr None"
| "settle_search signal ref tol consecutive (i # is) =
     (case all_within signal ref tol (map (\<lambda>j. i + j) [0..<nat consecutive]) of
        Inl e \<Rightarrow> Inl e
      | Inr True \<Rightarrow> Inr (Some i)
      | Inr False \<Rightarrow> settle_search signal ref tol consecutive is)"

definition settle_time_steps :: "real list \<Rightarrow> real list \<Rightarrow> real \<Rightarrow> int \<Rightarrow> py_error + nat option" where
  "settle_time_steps signal ref band consecutive =
     (if ref = [] then Inl ValueError
      else
        let ref_max = Max (set (map abs ref));
            ref_max = (if ref_max = 0 then 1 else ref_max);
            tol = band * ref_max
        in settle_search signal ref tol consecutive [0..<nat (int (length signal) - consecutive)])"

text \<open>
  The distortion of a signal. The window, the transform and its frequencies are NumPy's. \<^verbatim>\<open>round\<close> rounds half
  to even, and an index below zero counts from the end.
\<close>

definition py_round :: "real \<Rightarrow> int" where
  "py_round x =
     (let f = \<lfloor>x\<rfloor>; d = x - of_int f
      in if d < 1 / 2 then f else if d > 1 / 2 then f + 1 else if even f then f else f + 1)"

definition py_index :: "'a list \<Rightarrow> int \<Rightarrow> 'a option" where
  "py_index xs k =
     (if 0 \<le> k \<and> k < int (length xs) then Some (xs ! nat k)
      else if - int (length xs) \<le> k \<and> k < 0 then Some (xs ! nat (int (length xs) + k))
      else None)"

fun harmonics_sq :: "complex list \<Rightarrow> int \<Rightarrow> int list \<Rightarrow> real \<Rightarrow> py_error + real" where
  "harmonics_sq spectrum k1 [] acc = Inr acc"
| "harmonics_sq spectrum k1 (h # hs) acc =
     (if k1 * h < int (length spectrum)
      then case py_index spectrum (k1 * h) of
             None \<Rightarrow> Inl IndexError
           | Some z \<Rightarrow> harmonics_sq spectrum k1 hs (acc + cmod z ^ 2)
      else harmonics_sq spectrum k1 hs acc)"

definition compute_thd ::
  "(nat \<Rightarrow> real list) \<Rightarrow> (real list \<Rightarrow> complex list) \<Rightarrow> (nat \<Rightarrow> real \<Rightarrow> real list) \<Rightarrow>
   real list \<Rightarrow> real \<Rightarrow> real \<Rightarrow> py_error + double" where
  "compute_thd hanning rfft rfftfreq v h f_fund =
     (let n = length v;
          window = hanning n;
          spectrum = rfft (map2 (\<lambda>x w. x * w) v window);
          freqs = rfftfreq n h
      in case py_index freqs 1 of
           None \<Rightarrow> Inl IndexError
         | Some f1 \<Rightarrow>
             if f1 = 0 then Inl (if f_fund = 0 then ValueError else OverflowError)
             else
               let k1 = py_round (f_fund / f1)
               in if int (length spectrum) \<le> k1 then Inr PInf
                  else case py_index spectrum k1 of
                         None \<Rightarrow> Inl IndexError
                       | Some z \<Rightarrow>
                           let V1 = cmod z
                           in if V1 < 1 / 10 ^ 12 then Inr PInf
                              else case harmonics_sq spectrum k1 [2..10] 0 of
                                     Inl e \<Rightarrow> Inl e
                                   | Inr sq \<Rightarrow> Inr (Fin (100 * sqrt sq / V1)))"

subsection \<open>Specification\<close>

text \<open>In every leg exactly one of the two switches conducts: the bus is never short-circuited.\<close>

definition one_switch_per_leg :: "u8 \<Rightarrow> bool" where
  "one_switch_per_leg g \<longleftrightarrow> (\<forall>k < 3. igbt_on g (2 * k) \<noteq> igbt_on g (2 * k + 1))"

text \<open>\<open>n\<close> samples from \<open>i\<close> on are within the band around the reference.\<close>

definition settled :: "real list \<Rightarrow> real list \<Rightarrow> real \<Rightarrow> nat \<Rightarrow> nat \<Rightarrow> bool" where
  "settled signal ref band n i \<longleftrightarrow>
     (let m = Max (set (map abs ref))
      in \<forall>j < n. \<bar>signal ! (i + j) - ref ! (i + j)\<bar> < band * (if m = 0 then 1 else m))"

subsection \<open>The controller\<close>

definition pi_ok :: "pi_controller \<Rightarrow> bool" where
  "pi_ok c \<longleftrightarrow> 0 \<le> x_max c \<and> length (pi_x c) = 3 \<and> (\<forall>x \<in> set (pi_x c). \<bar>x\<bar> \<le> x_max c)"

lemma clamp_bounds: "0 \<le> b \<Longrightarrow> \<bar>max (- b) (min b x)\<bar> \<le> b" for b :: real
  by (simp add: abs_le_iff)

lemma pi_phases_ok:
  assumes "pi_ok c" "length i_ref = 3" "length i_meas = 3" "\<forall>k \<in> set ks. k < 3" "\<forall>x \<in> set u. \<bar>x\<bar> \<le> 1"
  obtains u' c' where "pi_phases i_ref i_meas ks c u = (Inr u', c')" "pi_ok c'" "x_max c' = x_max c"
    "length u' = length u + length ks" "\<forall>x \<in> set u'. \<bar>x\<bar> \<le> 1"
  using assms
proof (induction ks arbitrary: c u thesis)
  case (Cons k ks)
  let ?e = "i_ref ! k - i_meas ! k"
  define x where "x = max (- x_max c) (min (x_max c) (pi_x c ! k + pi_dt c * ?e))"
  let ?c = "c\<lparr>pi_x := (pi_x c)[k := x]\<rparr>"
  let ?u = "u @ [max (- 1) (min 1 (k_p c * ?e + k_i c * x))]"
  have "\<bar>x\<bar> \<le> x_max c" using Cons.prems(2) unfolding x_def by (intro clamp_bounds) (simp add: pi_ok_def)
  then have "pi_ok ?c" using Cons.prems(2) set_update_subset_insert [of "pi_x c" k x] by (auto simp: pi_ok_def)
  moreover have "\<forall>x \<in> set ?u. \<bar>x\<bar> \<le> 1" using Cons.prems(6) clamp_bounds [of 1] by auto
  ultimately obtain u' c' where "pi_phases i_ref i_meas ks ?c ?u = (Inr u', c')" "pi_ok c'" "x_max c' = x_max ?c"
      "length u' = length ?u + length ks" "\<forall>x \<in> set u'. \<bar>x\<bar> \<le> 1"
    using Cons.IH [of ?c ?u] Cons.prems(3-5) by auto
  moreover have "pi_phases i_ref i_meas (k # ks) c u = pi_phases i_ref i_meas ks ?c ?u"
    using Cons.prems(2-5) by (simp add: Let_def x_def pi_ok_def)
  ultimately show ?case using Cons.prems(1) [of u' c'] by simp
qed simp

lemma pi_step_ok:
  assumes "pi_ok c" "length i_ref = 3" "length i_meas = 3"
  obtains u c' where "pi_step i_ref i_meas c = (Inr u, c')" "pi_ok c'" "x_max c' = x_max c" "length u = 3" "\<forall>x \<in> set u. \<bar>x\<bar> \<le> 1"
proof -
  obtain u c' where "pi_phases i_ref i_meas [0..<3] c [] = (Inr u, c')" "pi_ok c'" "x_max c' = x_max c"
      "length u = length ([] :: real list) + length [0..<3]" "\<forall>x \<in> set u. \<bar>x\<bar> \<le> 1"
    by (rule pi_phases_ok [OF assms, of "[0..<3]" "[]"]) auto
  then show thesis using that by (simp add: pi_step_def)
qed

subsection \<open>The modulator\<close>

lemma carrier_eq:
  assumes "0 < carrier_period m"
  shows "carrier m = (let phi = frac (carrier_t m / carrier_period m) in if phi < 1 / 2 then 4 * phi - 1 else 3 - 4 * phi)"
proof -
  have "py_mod (carrier_t m) (carrier_period m) / carrier_period m = frac (carrier_t m / carrier_period m)"
    using assms by (simp add: py_mod_def frac_def field_simps)
  then show ?thesis by (simp add: carrier_def)
qed

lemma carrier_bounds: "0 < carrier_period m \<Longrightarrow> \<bar>carrier m\<bar> \<le> 1"
  using frac_ge_0 [of "carrier_t m / carrier_period m"] frac_lt_1 [of "carrier_t m / carrier_period m"]
  by (simp add: carrier_eq Let_def abs_le_iff)

lemma gate_loop_word:
  assumes "length u = 3"
  obtains g :: u8 where "gate_loop c u [0..<3] 0 = Inr (uint g)" "\<forall>k < 3. igbt_on g (2 * k) = (c < u ! k)"
    "\<forall>k < 3. igbt_on g (2 * k + 1) = (\<not> c < u ! k)"
proof -
  define g :: u8 where "g = (if c < u ! 0 then 1 else 2) OR (if c < u ! 1 then 4 else 8) OR (if c < u ! 2 then 16 else 32)"
  have "gate_loop c u [0..<3] 0 = Inr (uint g)"
    using assms by (cases "c < u ! 0"; cases "c < u ! 1"; cases "c < u ! 2") (simp_all add: g_def three)
  moreover have "\<forall>k < 3. igbt_on g (2 * k) = (c < u ! k)" "\<forall>k < 3. igbt_on g (2 * k + 1) = (\<not> c < u ! k)"
    by (auto simp: less_three igbt_on_def g_def)
  ultimately show thesis using that by blast
qed

lemma modulate_many:
  "foldl (\<lambda>m u. snd (modulate u m)) m us = m\<lparr>carrier_t := carrier_t m + real (length us) * sp_dt m\<rparr>"
  by (induction us arbitrary: m) (simp_all add: modulate_def Let_def algebra_simps)

lemma frac_quarter: "frac (1 / 4 + real n / 2) = (if even n then 1 / 4 else 3 / 4)"
proof (cases "even n")
  case True
  then obtain k where "n = 2 * k" by (rule evenE)
  then have "1 / 4 + real n / 2 = 1 / 4 + of_int (int k)" by simp
  then show ?thesis using True by (subst frac_unique_iff) simp
next
  case False
  then obtain k where "n = 2 * k + 1" by (rule oddE)
  then have "1 / 4 + real n / 2 = 3 / 4 + of_int (int k)" by (simp add: field_simps)
  then show ?thesis using False by (subst frac_unique_iff) simp
qed

lemma carrier_frozen:
  assumes "0 < f" "h * f = 1 / 2" "spwm_new h f = Inr m"
  shows "carrier (foldl (\<lambda>m u. snd (modulate u m)) m us) = 0"
proof -
  let ?m = "foldl (\<lambda>m u. snd (modulate u m)) m us"
  have m: "m = \<lparr>sp_dt = h, carrier_period = 1 / f, carrier_t = 25 / 100 * (1 / f)\<rparr>"
    using assms(1,3) by (auto simp: spwm_new_def Let_def mult.commute)
  have "carrier_t ?m / carrier_period ?m = 1 / 4 + real (length us) * (h * f)"
    using assms(1) by (simp add: modulate_many m algebra_simps)
  also have "\<dots> = 1 / 4 + real (length us) / 2" unfolding assms(2) by simp
  finally have "frac (carrier_t ?m / carrier_period ?m) = (if even (length us) then 1 / 4 else 3 / 4)"
    by (simp only: frac_quarter)
  moreover have "0 < carrier_period ?m" using assms(1) by (simp add: modulate_many m)
  ultimately show ?thesis by (simp add: carrier_eq)
qed

subsection \<open>The closed loop\<close>

definition hil_inv :: "(matrix \<Rightarrow> 'f) \<Rightarrow> solver_params \<Rightarrow> 'f hil_loop \<Rightarrow> u8 list \<Rightarrow> bool" where
  "hil_inv lu_fac p h gates \<longleftrightarrow> py_ok lu_fac p (h_net h) \<and> pi_ok (h_pi h) \<and> x_max (h_pi h) = 5 \<and>
     (\<exists>net. vsc_run p gates = Some (net, solver_state (h_s h)) \<and> sim_ok p (net, solver_state (h_s h))) \<and>
     (\<forall>g \<in> set gates. one_switch_per_leg g) \<and> length (v_cap_a h) = length gates"

lemma hil_inv_new:
  assumes "good_params p"
  obtains h where "hil_loop_new p = Inr h" "hil_inv lu_fac p h []"
proof -
  obtain h where h: "hil_loop_new p = Inr (h :: 'a hil_loop)" by (simp add: hil_loop_new_def spwm_new_def Let_def)
  obtain net s where r: "vsc_run p [] = Some (net, s)" "sim_ok p (net, s)" by (rule sim_ok_run [OF assms])
  then have "s = vsc_state_new" by (simp add: vsc_run_def split: prod.splits option.splits)
  then have "hil_inv lu_fac p h []"
    using h r by (auto simp: hil_loop_new_def spwm_new_def Let_def hil_inv_def py_ok_def py_network_new_def
        pi_new_def pi_ok_def solver_state_new)
  then show thesis using that h by blast
qed

lemma hil_iteration_inv:
  assumes "scipy_lu lu_fac lu_slv" "good_params p" "hil_inv lu_fac p h gates"
  obtains h' g where "hil_iteration lu_fac lu_slv p amp h = Inr (h', uint g)" "hil_inv lu_fac p h' (gates @ [g])"
proof -
  obtain net where inv: "py_ok lu_fac p (h_net h)" "pi_ok (h_pi h)" "x_max (h_pi h) = 5"
      "vsc_run p gates = Some (net, solver_state (h_s h))" "sim_ok p (net, solver_state (h_s h))"
      "\<forall>g \<in> set gates. one_switch_per_leg g" "length (v_cap_a h) = length gates"
    using assms(3) unfolding hil_inv_def by blast
  obtain i_ref where ref: "make_i_ref (py_t (h_s h)) amp (f_grid p) (4 / 100) = Inr i_ref" "length i_ref = 3"
    by (simp add: make_i_ref_def Let_def)
  have "length (map (py_i_Lf (h_s h)) [0..<3]) = 3" by simp
  then obtain u c where pi: "pi_step i_ref (map (py_i_Lf (h_s h)) [0..<3]) (h_pi h) = (Inr u, c)" "pi_ok c"
      "x_max c = x_max (h_pi h)" "length u = 3"
    by (rule pi_step_ok [OF inv(2) ref(2)]) 
  obtain g :: u8 where g: "gate_loop (carrier (h_spwm h)) u [0..<3] 0 = Inr (uint g)" "one_switch_per_leg g"
    by (rule gate_loop_word [OF pi(4), of "carrier (h_spwm h)"]) (simp add: one_switch_per_leg_def)
  obtain net' pnet' s' where st: "py_step lu_fac lu_slv (h_net h) (h_s h) (uint g) = (Inr (py_fault s'), pnet', s')"
      "vsc_step net (solver_state (h_s h)) g = (Inr (py_fault s'), net', solver_state s')"
      "py_ok lu_fac p pnet'" "sim_ok p (net', solver_state s')"
    by (rule py_step_simulates [OF assms(1,2) inv(1,5)])
  have "vsc_run p (gates @ [g]) = Some (net', solver_state s')"
    using vsc_run_snoc [OF inv(4)] st(2) by (simp add: vsc_advance_def)
  moreover obtain m where "modulate u (h_spwm h) = (Inr (uint g), m)" using g(1) by (simp add: modulate_def Let_def)
  ultimately show thesis
    using that ref(1) pi st g(2) inv(3,6,7) by (simp add: hil_iteration_def hil_inv_def)
qed

lemma hil_iterate_inv:
  assumes "scipy_lu lu_fac lu_slv" "good_params p" "hil_inv lu_fac p h gates"
  shows "\<exists>h' gs. hil_iterate lu_fac lu_slv p amp n h (map uint gates) = Inr (h', map uint (gates @ gs)) \<and>
    length gs = n \<and> hil_inv lu_fac p h' (gates @ gs)"
  using assms(3)
proof (induction n arbitrary: h gates)
  case (Suc n)
  obtain h1 g where st: "hil_iteration lu_fac lu_slv p amp h = Inr (h1, uint g)" "hil_inv lu_fac p h1 (gates @ [g])"
    by (rule hil_iteration_inv [OF assms(1,2) Suc.prems])
  obtain h' gs where "hil_iterate lu_fac lu_slv p amp n h1 (map uint (gates @ [g])) = Inr (h', map uint ((gates @ [g]) @ gs))"
      "length gs = n" "hil_inv lu_fac p h' ((gates @ [g]) @ gs)"
    using Suc.IH [OF st(2)] by blast
  then show ?case using st(1) by (intro exI [of _ h'] exI [of _ "g # gs"]) simp
qed auto

subsection \<open>Analysis\<close>

lemma all_within_bounds:
  assumes "\<forall>j \<in> set js. i + j < length signal \<and> i + j < length ref"
  shows "all_within signal ref tol (map (\<lambda>j. i + j) js) = Inr (\<forall>j \<in> set js. \<bar>signal ! (i + j) - ref ! (i + j)\<bar> < tol)"
  using assms by (induction js) auto

lemma settle_search_find:
  assumes "\<forall>i \<in> set is. i + n \<le> length signal" "length signal \<le> length ref"
  shows "settle_search signal ref tol (int n) is =
    Inr (find (\<lambda>i. \<forall>j < n. \<bar>signal ! (i + j) - ref ! (i + j)\<bar> < tol) is)"
  using assms
proof (induction "is")
  case (Cons i "is")
  have "all_within signal ref tol (map (\<lambda>j. i + j) [0..<n]) = Inr (\<forall>j < n. \<bar>signal ! (i + j) - ref ! (i + j)\<bar> < tol)"
    using Cons.prems by (subst all_within_bounds) auto
  then show ?case using Cons by (auto split: bool.splits)
qed simp

lemma find_upt:
  "(case find P [0..<n] of None \<Rightarrow> \<forall>i < n. \<not> P i | Some i \<Rightarrow> i < n \<and> P i \<and> (\<forall>i' < i. \<not> P i'))"
proof (cases "find P [0..<n]")
  case None
  then have "\<forall>i < n. \<not> P i" by (auto simp: find_None_iff)
  then show ?thesis using None by simp
next
  case (Some i)
  then have "i < n \<and> P i \<and> (\<forall>i' < i. \<not> P i')" by (auto simp: find_Some_iff)
  then show ?thesis using Some by simp
qed

text \<open>The distortion is a percentage that is never negative, and the RMS value squares to the mean square.\<close>

lemma harmonics_sq_nonneg: "harmonics_sq spectrum k1 hs acc = Inr sq \<Longrightarrow> 0 \<le> acc \<Longrightarrow> 0 \<le> sq"
  by (induction hs arbitrary: acc) (auto split: if_splits option.splits)

lemma compute_thd_nonneg:
  assumes "compute_thd hanning rfft rfftfreq v h f_fund = Inr (Fin x)"
  shows "0 \<le> x"
proof -
  define hs where "hs = [2..10 :: int]"
  have nonneg: "harmonics_sq spectrum k1 hs 0 = Inr sq \<Longrightarrow> 0 \<le> sq" for spectrum k1 sq
    by (erule harmonics_sq_nonneg) (rule order_refl)
  show ?thesis
    using assms unfolding compute_thd_def Let_def hs_def [symmetric]
    by (auto split: option.splits if_splits sum.splits dest!: nonneg)
qed

lemma compute_rms_square:
  assumes "v \<noteq> []"
  shows "\<exists>r. compute_rms v = Fin r \<and> 0 \<le> r \<and> r ^ 2 * real (length v) = (\<Sum>x\<leftarrow>v. x ^ 2)"
proof -
  have "0 \<le> (\<Sum>x\<leftarrow>v. x ^ 2)" by (rule sum_list_nonneg) auto
  then show ?thesis using assms by (simp add: compute_rms_def)
qed

subsection \<open>Properties\<close>

text \<open>
  C12. The closed loop is safe and faithful: whatever the current demanded, all its iterations complete, every gate
  word it applies turns on exactly one switch of each leg, the integrators stay within the limit of the
  anti-windup clamp, and the state it ends in is the one the C++ solver reaches with the same gate words.\<close>

theorem closed_loop_safe_and_faithful:
  assumes "scipy_lu lu_fac lu_slv" "good_params p"
  shows "\<exists>h gates net. run_loop lu_fac lu_slv n amp (Some p) = Inr (h, map uint gates) \<and> length gates = n \<and>
    (\<forall>g \<in> set gates. one_switch_per_leg g) \<and> (\<forall>x \<in> set (pi_x (h_pi h)). \<bar>x\<bar> \<le> 5) \<and> length (v_cap_a h) = n \<and>
    vsc_run p gates = Some (net, solver_state (h_s h))"
proof -
  obtain h0 where h0: "hil_loop_new p = Inr h0" "hil_inv lu_fac p h0 []" by (rule hil_inv_new [OF assms(2)])
  obtain h gs where "hil_iterate lu_fac lu_slv p amp n h0 [] = Inr (h, map uint gs)" "length gs = n" "hil_inv lu_fac p h gs"
    using hil_iterate_inv [OF assms h0(2), of amp n] by auto
  then show ?thesis using h0(1) by (auto simp: run_loop_def hil_inv_def pi_ok_def)
qed

theorem closed_loop_safe_and_faithful_witness:
  "\<exists>h gates net. run_loop own_lu own_solve 4 10 (Some py_SolverParams) = Inr (h, map uint gates) \<and> length gates = 4 \<and>
    list_all one_switch_per_leg gates \<and> length (v_cap_a h) = 4 \<and> vsc_run py_SolverParams gates = Some (net, solver_state (h_s h))"
proof -
  have g: "good_params py_SolverParams" by (simp add: good_params_def py_SolverParams_def)
  from closed_loop_safe_and_faithful [OF own_scipy g, of 4 10] show ?thesis unfolding list_all_iff by blast
qed

text \<open>
  C40. With a time step of half a carrier period, which the default parameters have, the modulator samples its
  carrier only where it crosses zero: after any calls, the upper switch of a leg is on exactly if
  its demand is positive, however large or small the demand is.\<close>

theorem modulator_keeps_only_the_sign:
  assumes "0 < f" "h * f = 1 / 2" "spwm_new h f = Inr m" "length u = 3"
  shows "\<exists>g :: u8. fst (modulate u (foldl (\<lambda>m u. snd (modulate u m)) m us)) = Inr (uint g) \<and>
    (\<forall>k < 3. igbt_on g (2 * k) = (0 < u ! k) \<and> igbt_on g (2 * k + 1) = (\<not> 0 < u ! k))"
proof -
  have "fst (modulate u (foldl (\<lambda>m u. snd (modulate u m)) m us)) = gate_loop 0 u [0..<3] 0"
    using carrier_frozen [OF assms(1-3), of us] by (simp add: modulate_def Let_def)
  then show ?thesis using gate_loop_word [OF assms(4), of 0] by metis
qed

theorem modulator_keeps_only_the_sign_witness:
  "\<exists>m. spwm_new (dt py_SolverParams) (10 * 10 ^ 3) = Inr m \<and>
     (\<exists>g :: u8. fst (modulate [1 / 100, 1, - 1 / 100] (foldl (\<lambda>m u. snd (modulate u m)) m [[0, 0, 0]])) = Inr (uint g) \<and>
        igbt_on g 0 \<and> igbt_on g 2 \<and> igbt_on g 5)"
proof -
  obtain m where m: "spwm_new (dt py_SolverParams) (10 * 10 ^ 3) = Inr m" by (simp add: spwm_new_def Let_def)
  have "dt py_SolverParams * (10 * 10 ^ 3) = 1 / 2" by (simp add: py_SolverParams_def)
  then obtain g :: u8 where g: "fst (modulate [1 / 100, 1, - 1 / 100] (foldl (\<lambda>m u. snd (modulate u m)) m [[0, 0, 0]])) = Inr (uint g)"
      "\<forall>k < 3. igbt_on g (2 * k) = (0 < [1 / 100, 1, - 1 / 100 :: real] ! k) \<and>
         igbt_on g (2 * k + 1) = (\<not> 0 < [1 / 100, 1, - 1 / 100 :: real] ! k)"
    using modulator_keeps_only_the_sign [OF _ _ m, of "[1 / 100, 1, - 1 / 100]" "[[0, 0, 0]]"] by auto
  have "igbt_on g 0" "igbt_on g 2" "igbt_on g 5"
    using g(2) [THEN spec, of 0] g(2) [THEN spec, of 1] g(2) [THEN spec, of 2] by (simp_all add: eval_nat_numeral)
  then show ?thesis using m g(1) by blast
qed

text \<open>
  The settling time is the first index from which the given number of samples stays within the band around
  the reference, among the indices with at least one sample more after those; there is none if the search
  finds none.\<close>

lemma settle_time_is_first:
  assumes "ref \<noteq> []" "length signal \<le> length ref"
  shows "\<exists>r. settle_time_steps signal ref band (int n) = Inr r \<and>
    (case r of
       None \<Rightarrow> \<forall>i. i + n < length signal \<longrightarrow> \<not> settled signal ref band n i
     | Some i \<Rightarrow> i + n < length signal \<and> settled signal ref band n i \<and> (\<forall>i' < i. \<not> settled signal ref band n i'))"
proof -
  define tol where "tol = band * (if Max (set (map abs ref)) = 0 then 1 else Max (set (map abs ref)))"
  have "settle_time_steps signal ref band (int n) = settle_search signal ref tol (int n) [0..<length signal - n]"
    using assms(1) by (simp add: settle_time_steps_def tol_def Let_def nat_diff_distrib')
  also have "\<dots> = Inr (find (\<lambda>i. \<forall>j < n. \<bar>signal ! (i + j) - ref ! (i + j)\<bar> < tol) [0..<length signal - n])"
    by (rule settle_search_find) (use assms(2) in auto)
  also have "(\<lambda>i. \<forall>j < n. \<bar>signal ! (i + j) - ref ! (i + j)\<bar> < tol) = settled signal ref band n"
    by (intro ext) (simp only: settled_def tol_def Let_def)
  finally have "settle_time_steps signal ref band (int n) = Inr (find (settled signal ref band n) [0..<length signal - n])" .
  moreover note find_upt [of "length signal - n" "settled signal ref band n"]
  ultimately show ?thesis by (auto simp: less_diff_conv split: option.splits)
qed

lemma settle_time_is_first_example:
  "\<exists>r. settle_time_steps [5, 1, 1, 1] [1, 1, 1, 1] (1 / 20) (int 2) = Inr r \<and>
    (case r of None \<Rightarrow> \<not> settled [5, 1, 1, 1] [1, 1, 1, 1] (1 / 20) 2 1
     | Some i \<Rightarrow> i + 2 < 4 \<and> settled [5, 1, 1, 1] [1, 1, 1, 1] (1 / 20) 2 i)"
  using settle_time_is_first [of "[1, 1, 1, 1]" "[5, 1, 1, 1]" "1 / 20" 2]
  by (auto split: option.splits)

text \<open>A signal that is settled from its first sample on is reported as never settled if it has no sample more.\<close>

lemma settle_time_misses_last_window:
  "n = length signal \<Longrightarrow> ref \<noteq> [] \<Longrightarrow> settle_time_steps signal ref band (int n) = Inr None"
  by (simp add: settle_time_steps_def Let_def)

end
