(* ===== verification/Cnc_Data_Source.thy ===== *)
theory Cnc_Data_Source
  imports Doubles
begin

text \<open>
  The information model and the two data sources of the OPC UA server: the copying one and the one that
  hands out variants of a pool. The server library is represented by the calls made to it, whose status codes
  are an input; a data value is read (encoded) by the library some time after the callback has returned.
  The published floats are finite real numbers, infinities or not-a-number; rounding is not modelled.
\<close>

subsection \<open>cnc_node_ids.h\<close>

definition CNC_NS_IDX :: nat where
  "CNC_NS_IDX = 2"

definition NUM_NODES :: nat where
  "NUM_NODES = 9"

datatype cnc_node_id =
  SPINDLE_TEMP | SPINDLE_TORQUE | SPINDLE_SPEED | VIBRATION_X | VIBRATION_Y | VIBRATION_Z | AXIS_X | AXIS_Y | AXIS_Z

instantiation cnc_node_id :: enum
begin

definition enum_cnc_node_id :: "cnc_node_id list" where
  "enum_cnc_node_id =
     [SPINDLE_TEMP, SPINDLE_TORQUE, SPINDLE_SPEED, VIBRATION_X, VIBRATION_Y, VIBRATION_Z, AXIS_X, AXIS_Y, AXIS_Z]"

definition enum_all_cnc_node_id :: "(cnc_node_id \<Rightarrow> bool) \<Rightarrow> bool" where
  "enum_all_cnc_node_id P \<longleftrightarrow> list_all P enum_class.enum"

definition enum_ex_cnc_node_id :: "(cnc_node_id \<Rightarrow> bool) \<Rightarrow> bool" where
  "enum_ex_cnc_node_id P \<longleftrightarrow> list_ex P enum_class.enum"

instance
proof
  have all: "n \<in> set (enum_class.enum :: cnc_node_id list)" for n
    by (cases n) (simp_all add: enum_cnc_node_id_def)
  then show "(UNIV :: cnc_node_id set) = set enum_class.enum" by blast
  show "distinct (enum_class.enum :: cnc_node_id list)" by (simp add: enum_cnc_node_id_def)
  fix P :: "cnc_node_id \<Rightarrow> bool"
  show "enum_class.enum_all P \<longleftrightarrow> Ball UNIV P" using all by (auto simp: enum_all_cnc_node_id_def list_all_iff)
  show "enum_class.enum_ex P \<longleftrightarrow> Bex UNIV P" using all by (auto simp: enum_ex_cnc_node_id_def list_ex_iff)
qed

end

text \<open>A property of all nodes, node by node.\<close>

lemma all_nodes:
  "(\<forall>n. P n) \<longleftrightarrow> P SPINDLE_TEMP \<and> P SPINDLE_TORQUE \<and> P SPINDLE_SPEED \<and> P VIBRATION_X \<and> P VIBRATION_Y \<and> P VIBRATION_Z \<and>
     P AXIS_X \<and> P AXIS_Y \<and> P AXIS_Z"
proof -
  have "(\<forall>n. P n) \<longleftrightarrow> Ball (set enum_class.enum) P" by (simp flip: enum_class.UNIV_enum)
  then show ?thesis by (simp add: enum_cnc_node_id_def)
qed

fun numeric_id :: "cnc_node_id \<Rightarrow> nat" where
  "numeric_id SPINDLE_TEMP = 1001"
| "numeric_id SPINDLE_TORQUE = 1002"
| "numeric_id SPINDLE_SPEED = 1003"
| "numeric_id VIBRATION_X = 1004"
| "numeric_id VIBRATION_Y = 1005"
| "numeric_id VIBRATION_Z = 1006"
| "numeric_id AXIS_X = 1007"
| "numeric_id AXIS_Y = 1008"
| "numeric_id AXIS_Z = 1009"

fun node_idx :: "cnc_node_id \<Rightarrow> nat" where
  "node_idx SPINDLE_TEMP = 0"
| "node_idx SPINDLE_TORQUE = 1"
| "node_idx SPINDLE_SPEED = 2"
| "node_idx VIBRATION_X = 3"
| "node_idx VIBRATION_Y = 4"
| "node_idx VIBRATION_Z = 5"
| "node_idx AXIS_X = 6"
| "node_idx AXIS_Y = 7"
| "node_idx AXIS_Z = 8"

subsection \<open>information_model.c\<close>

definition g_node_numeric_ids :: "nat list" where
  "g_node_numeric_ids =
     map numeric_id [SPINDLE_TEMP, SPINDLE_TORQUE, SPINDLE_SPEED, VIBRATION_X, VIBRATION_Y, VIBRATION_Z, AXIS_X, AXIS_Y, AXIS_Z]"

definition g_node_names :: "string list" where
  "g_node_names =
     [''Spindle.Temperature_C'', ''Spindle.Torque_Nm'', ''Spindle.SpeedRPM'', ''Vibration.X_mms'', ''Vibration.Y_mms'',
      ''Vibration.Z_mms'', ''Axis.X_mm'', ''Axis.Y_mm'', ''Axis.Z_mm'']"

type_synonym ua_node_id = "nat \<times> nat"

datatype ua_type = UA_FLOAT | UA_OTHER nat

record variable_attributes =
  attr_value :: "ua_type \<times> double"
  display_name :: "string \<times> string"
  data_type :: ua_type
  access_read :: bool
  access_write :: bool
  minimum_sampling :: real

datatype read_callback = CNC_READ | CNC_READ_OPT

text \<open>The well-known node ids of namespace 0 are kept as names.\<close>

datatype ns0 = OBJECTSFOLDER | ORGANIZES | FOLDERTYPE | HASCOMPONENT | BASEDATAVARIABLETYPE

datatype ua_call =
    AddNamespace string
  | AddObjectNode ua_node_id ns0 ns0 "nat \<times> string" ns0 "string \<times> string"
  | AddVariableNode ua_node_id ua_node_id ns0 "nat \<times> string" ns0 variable_attributes nat
  | SetDataSource ua_node_id read_callback

definition UA_STATUSCODE_GOOD :: nat where
  "UA_STATUSCODE_GOOD = 0"

text \<open>A call is appended to the list of calls; \<open>status\<close> gives the library's answers.\<close>

definition add_variable_node :: "(ua_call \<Rightarrow> nat) \<Rightarrow> nat \<Rightarrow> ua_call list \<Rightarrow> (nat \<times> ua_call list) option" where
  "add_variable_node status idx calls = do {
     name \<leftarrow> vec_get g_node_names idx;
     num \<leftarrow> vec_get g_node_numeric_ids idx;
     let attr = \<lparr>attr_value = (UA_FLOAT, Fin 0), display_name = (''en-US'', name), data_type = UA_FLOAT,
                 access_read = True, access_write = False, minimum_sampling = 1\<rparr>;
     let c = AddVariableNode (CNC_NS_IDX, num) (CNC_NS_IDX, 1000) HASCOMPONENT (CNC_NS_IDX, name)
               BASEDATAVARIABLETYPE attr idx;
     Some (status c, calls @ [c])
   }"

fun add_variable_nodes :: "(ua_call \<Rightarrow> nat) \<Rightarrow> nat list \<Rightarrow> ua_call list \<Rightarrow> (nat \<times> ua_call list) option" where
  "add_variable_nodes status [] calls = Some (UA_STATUSCODE_GOOD, calls)"
| "add_variable_nodes status (i # is) calls =
     (case add_variable_node status i calls of
        None \<Rightarrow> None
      | Some (sc, calls) \<Rightarrow>
          if sc \<noteq> UA_STATUSCODE_GOOD then Some (sc, calls) else add_variable_nodes status is calls)"

definition information_model_init :: "(ua_call \<Rightarrow> nat) \<Rightarrow> ua_call list \<Rightarrow> (nat \<times> ua_call list) option" where
  "information_model_init status calls =
     (let calls = calls @ [AddNamespace ''urn:cnc-edge:CncMachine''];
          c = AddObjectNode (CNC_NS_IDX, 1000) OBJECTSFOLDER ORGANIZES (CNC_NS_IDX, ''CncMachine'') FOLDERTYPE
                (''en-US'', ''CncMachine'');
          calls = calls @ [c]
      in if status c \<noteq> UA_STATUSCODE_GOOD then Some (status c, calls)
         else add_variable_nodes status [0..<NUM_NODES] calls)"

subsection \<open>data_source.c and data_source_opt.c\<close>

text \<open>
  The data of a variant is a heap copy of its own, or the address of an entry of the pool's scalars. The
  state holds the published values, and of the pool its scalars and variants.
\<close>

datatype variant_data = Owned double | Points_to nat

record ua_variant =
  v_type :: ua_type
  v_nodelete :: bool
  v_data :: variant_data

record data_source =
  g_node_values :: "double list"
  variant_scalars :: "double list"
  node_variants :: "ua_variant option list"

record data_value =
  dv_value :: "ua_variant option"
  hasValue :: bool
  hasSourceTimestamp :: bool
  sourceTimestamp :: int

definition ds_new :: data_source where
  "ds_new =
     \<lparr>g_node_values = replicate NUM_NODES (Fin 0), variant_scalars = replicate NUM_NODES (Fin 0),
      node_variants = replicate NUM_NODES None\<rparr>"

text \<open>
  The copying callback. \<open>allocated\<close> says whether the copy could be allocated: the status of the copy is not
  looked at, and the variant stays empty if it could not. An index outside the array is undefined.
\<close>

definition cnc_read_callback :: "bool \<Rightarrow> int \<Rightarrow> nat \<Rightarrow> data_source \<Rightarrow> (data_source \<times> data_value \<times> nat) option" where
  "cnc_read_callback allocated now ctx ds = do {
     val \<leftarrow> vec_get (g_node_values ds) ctx;
     let v = (if allocated then Some \<lparr>v_type = UA_FLOAT, v_nodelete = False, v_data = Owned val\<rparr> else None);
     Some (ds, \<lparr>dv_value = v, hasValue = True, hasSourceTimestamp = True, sourceTimestamp = now\<rparr>, UA_STATUSCODE_GOOD)
   }"

definition cnc_read_callback_opt :: "int \<Rightarrow> nat \<Rightarrow> data_source \<Rightarrow> (data_source \<times> data_value \<times> nat) option" where
  "cnc_read_callback_opt now ctx ds = do {
     val \<leftarrow> vec_get (g_node_values ds) ctx;
     sc \<leftarrow> vec_set (variant_scalars ds) ctx val;
     let ds = ds\<lparr>variant_scalars := sc\<rparr>;
     v \<leftarrow> vec_get (node_variants ds) ctx;
     Some (ds, \<lparr>dv_value = v, hasValue = True, hasSourceTimestamp = True, sourceTimestamp = now\<rparr>, UA_STATUSCODE_GOOD)
   }"

fun register_sources :: "read_callback \<Rightarrow> nat list \<Rightarrow> ua_call list \<Rightarrow> ua_call list option" where
  "register_sources cb [] calls = Some calls"
| "register_sources cb (i # is) calls =
     (case vec_get g_node_numeric_ids i of
        None \<Rightarrow> None
      | Some num \<Rightarrow> register_sources cb is (calls @ [SetDataSource (CNC_NS_IDX, num) cb]))"

definition data_source_init :: "ua_call list \<Rightarrow> ua_call list option" where
  "data_source_init calls = register_sources CNC_READ [0..<NUM_NODES] calls"

definition init_pool :: "data_source \<Rightarrow> nat \<Rightarrow> data_source option" where
  "init_pool ds i = do {
     sc \<leftarrow> vec_set (variant_scalars ds) i (Fin 0);
     vs \<leftarrow> vec_set (node_variants ds) i (Some \<lparr>v_type = UA_FLOAT, v_nodelete = True, v_data = Points_to i\<rparr>);
     Some (ds\<lparr>variant_scalars := sc, node_variants := vs\<rparr>)
   }"

definition data_source_init_opt :: "data_source \<Rightarrow> ua_call list \<Rightarrow> (data_source \<times> ua_call list) option" where
  "data_source_init_opt ds calls = do {
     ds \<leftarrow> fold_opt init_pool ds [0..<NUM_NODES];
     calls \<leftarrow> register_sources CNC_READ_OPT [0..<NUM_NODES] calls;
     Some (ds, calls)
   }"

definition data_source_get :: "nat \<Rightarrow> data_source \<Rightarrow> double option" where
  "data_source_get idx ds = vec_get (g_node_values ds) idx"

definition data_source_set :: "nat \<Rightarrow> double \<Rightarrow> data_source \<Rightarrow> data_source option" where
  "data_source_set idx val ds = map_option (\<lambda>vs. ds\<lparr>g_node_values := vs\<rparr>) (vec_set (g_node_values ds) idx val)"

text \<open>What the library finds when it encodes a data value: type and number, if there is a value.\<close>

definition encoded :: "data_source \<Rightarrow> data_value \<Rightarrow> (ua_type \<times> double) option" where
  "encoded ds dv =
     (case dv_value dv of
        None \<Rightarrow> None
      | Some v \<Rightarrow>
          (case v_data v of
             Owned x \<Rightarrow> Some (v_type v, x)
           | Points_to i \<Rightarrow> map_option (Pair (v_type v)) (vec_get (variant_scalars ds) i)))"

text \<open>
  Publishing and reading in turn, every value encoded before the next operation; generic in the two
  operations, with what the reads gave as result.
\<close>

datatype ds_op = Publish nat double | Read int nat

fun serve ::
  "(nat \<Rightarrow> double \<Rightarrow> 's \<Rightarrow> 's option) \<Rightarrow> (int \<Rightarrow> nat \<Rightarrow> 's \<Rightarrow> ('s \<times> 'r) option) \<Rightarrow> ds_op list \<Rightarrow> 's \<Rightarrow> ('s \<times> 'r list) option" where
  "serve set_val read_val [] s = Some (s, [])"
| "serve set_val read_val (Publish i v # ops) s =
     (case set_val i v s of None \<Rightarrow> None | Some s \<Rightarrow> serve set_val read_val ops s)"
| "serve set_val read_val (Read now i # ops) s =
     (case read_val now i s of
        None \<Rightarrow> None
      | Some (s, r) \<Rightarrow> map_option (\<lambda>(s, rs). (s, r # rs)) (serve set_val read_val ops s))"

definition read_naive :: "int \<Rightarrow> nat \<Rightarrow> data_source \<Rightarrow> (data_source \<times> (ua_type \<times> double) option) option" where
  "read_naive now i ds = map_option (\<lambda>(ds, dv, _). (ds, encoded ds dv)) (cnc_read_callback True now i ds)"

definition read_opt :: "int \<Rightarrow> nat \<Rightarrow> data_source \<Rightarrow> (data_source \<times> (ua_type \<times> double) option) option" where
  "read_opt now i ds = map_option (\<lambda>(ds, dv, _). (ds, encoded ds dv)) (cnc_read_callback_opt now i ds)"

subsection \<open>The contract of a data source\<close>

fun latest :: "double list \<Rightarrow> ds_op list \<Rightarrow> double list" where
  "latest vs [] = []"
| "latest vs (Publish i v # ops) = latest (vs[i := v]) ops"
| "latest vs (Read now i # ops) = vs ! i # latest vs ops"

fun op_index :: "ds_op \<Rightarrow> nat" where
  "op_index (Publish i v) = i"
| "op_index (Read now i) = i"

locale published_values =
  fixes ok :: "'s \<Rightarrow> bool" and published :: "'s \<Rightarrow> double list"
    and set_val :: "nat \<Rightarrow> double \<Rightarrow> 's \<Rightarrow> 's option"
    and read_val :: "int \<Rightarrow> nat \<Rightarrow> 's \<Rightarrow> ('s \<times> (ua_type \<times> double) option) option"
  assumes set_law: "ok s \<Longrightarrow> i < NUM_NODES \<Longrightarrow> \<exists>s'. set_val i v s = Some s' \<and> ok s' \<and> published s' = (published s)[i := v]"
    and read_law: "ok s \<Longrightarrow> i < NUM_NODES \<Longrightarrow>
      \<exists>s'. read_val now i s = Some (s', Some (UA_FLOAT, published s ! i)) \<and> ok s' \<and> published s' = published s"
begin

lemma serve_latest:
  assumes "ok s" "\<forall>oper \<in> set ops. op_index oper < NUM_NODES"
  shows "\<exists>s'. serve set_val read_val ops s = Some (s', map (\<lambda>x. Some (UA_FLOAT, x)) (latest (published s) ops)) \<and> ok s'"
  using assms
proof (induction ops arbitrary: s)
  case (Cons oper ops)
  show ?case
  proof (cases oper)
    case (Publish i v)
    then obtain s' where "set_val i v s = Some s'" "ok s'" "published s' = (published s)[i := v]"
      using set_law [OF Cons.prems(1), of i v] Cons.prems(2) by auto
    with Publish Cons.IH [of s'] Cons.prems(2) show ?thesis by simp
  next
    case (Read now i)
    then obtain s' where "read_val now i s = Some (s', Some (UA_FLOAT, published s ! i))" "ok s'" "published s' = published s"
      using read_law [OF Cons.prems(1), of i now] Cons.prems(2) by auto
    with Read Cons.IH [of s'] Cons.prems(2) show ?thesis by auto
  qed
qed simp

end

text \<open>A pool in order: nine entries each, and every variant is a float at its own scalar.\<close>

definition pool_ok :: "data_source \<Rightarrow> bool" where
  "pool_ok ds \<longleftrightarrow> length (g_node_values ds) = NUM_NODES \<and> length (variant_scalars ds) = NUM_NODES \<and>
     node_variants ds = map (\<lambda>i. Some \<lparr>v_type = UA_FLOAT, v_nodelete = True, v_data = Points_to i\<rparr>) [0..<NUM_NODES]"

interpretation naive: published_values "\<lambda>ds. length (g_node_values ds) = NUM_NODES" g_node_values data_source_set read_naive
  by unfold_locales
    (auto simp: data_source_set_def vec_set_Some read_naive_def cnc_read_callback_def vec_get_Some encoded_def)

interpretation pooled: published_values pool_ok g_node_values data_source_set read_opt
proof
  fix s :: data_source and i :: nat and v :: double
  assume "pool_ok s" "i < NUM_NODES"
  then show "\<exists>s'. data_source_set i v s = Some s' \<and> pool_ok s' \<and> g_node_values s' = (g_node_values s)[i := v]"
    by (auto simp: data_source_set_def vec_set_Some pool_ok_def)
next
  fix s :: data_source and i :: nat and now :: int
  assume "pool_ok s" "i < NUM_NODES"
  then show "\<exists>s'. read_opt now i s = Some (s', Some (UA_FLOAT, g_node_values s ! i)) \<and> pool_ok s' \<and> g_node_values s' = g_node_values s"
    by (auto simp: read_opt_def cnc_read_callback_opt_def vec_get_Some vec_set_Some pool_ok_def encoded_def)
qed

subsection \<open>Lemmas\<close>

lemma init_pool_loop:
  assumes "length (variant_scalars ds) = NUM_NODES" "length (node_variants ds) = NUM_NODES" "m \<le> NUM_NODES"
  shows "\<exists>ds'. fold_opt init_pool ds [0..<m] = Some ds' \<and> g_node_values ds' = g_node_values ds \<and>
    length (variant_scalars ds') = NUM_NODES \<and> length (node_variants ds') = NUM_NODES \<and>
    (\<forall>i < m. node_variants ds' ! i = Some \<lparr>v_type = UA_FLOAT, v_nodelete = True, v_data = Points_to i\<rparr>)"
  using assms(3)
proof (induction m)
  case (Suc m)
  then obtain ds1 where "fold_opt init_pool ds [0..<m] = Some ds1" "g_node_values ds1 = g_node_values ds"
      "length (variant_scalars ds1) = NUM_NODES" "length (node_variants ds1) = NUM_NODES"
      "\<forall>i < m. node_variants ds1 ! i = Some \<lparr>v_type = UA_FLOAT, v_nodelete = True, v_data = Points_to i\<rparr>"
    by auto
  moreover from this Suc.prems have "init_pool ds1 m = Some (ds1\<lparr>variant_scalars := (variant_scalars ds1)[m := Fin 0],
      node_variants := (node_variants ds1)[m := Some \<lparr>v_type = UA_FLOAT, v_nodelete = True, v_data = Points_to m\<rparr>]\<rparr>)"
    by (simp add: init_pool_def vec_set_Some)
  ultimately show ?case
    using Suc.prems by (simp add: fold_opt_append less_Suc_eq nth_list_update)
qed (use assms in simp)

lemma register_sources_spec:
  "\<forall>i \<in> set is. i < NUM_NODES \<Longrightarrow>
     register_sources cb is calls = Some (calls @ map (\<lambda>i. SetDataSource (CNC_NS_IDX, g_node_numeric_ids ! i) cb) is)"
  by (induction "is" arbitrary: calls) (simp_all add: vec_get_Some g_node_numeric_ids_def NUM_NODES_def)

lemma data_source_init_opt_ok:
  obtains ds' where "data_source_init_opt ds_new calls =
      Some (ds', calls @ map (\<lambda>i. SetDataSource (CNC_NS_IDX, g_node_numeric_ids ! i) CNC_READ_OPT) [0..<NUM_NODES])"
    "pool_ok ds'" "g_node_values ds' = replicate NUM_NODES (Fin 0)"
proof -
  obtain ds' where "fold_opt init_pool ds_new [0..<NUM_NODES] = Some ds'" "g_node_values ds' = g_node_values ds_new"
      "length (variant_scalars ds') = NUM_NODES" "length (node_variants ds') = NUM_NODES"
      "\<forall>i < NUM_NODES. node_variants ds' ! i = Some \<lparr>v_type = UA_FLOAT, v_nodelete = True, v_data = Points_to i\<rparr>"
    using init_pool_loop [of ds_new NUM_NODES] by (auto simp: ds_new_def)
  moreover from this have "pool_ok ds'" by (auto simp: pool_ok_def ds_new_def intro: nth_equalityI)
  ultimately show thesis
    using register_sources_spec [of "[0..<NUM_NODES]" CNC_READ_OPT calls] that
    by (simp add: data_source_init_opt_def ds_new_def)
qed

text \<open>The call that adds a variable.\<close>

definition variable_call :: "nat \<Rightarrow> ua_call" where
  "variable_call i =
     AddVariableNode (CNC_NS_IDX, g_node_numeric_ids ! i) (CNC_NS_IDX, 1000) HASCOMPONENT (CNC_NS_IDX, g_node_names ! i)
       BASEDATAVARIABLETYPE \<lparr>attr_value = (UA_FLOAT, Fin 0), display_name = (''en-US'', g_node_names ! i), data_type = UA_FLOAT,
         access_read = True, access_write = False, minimum_sampling = 1\<rparr> i"

lemma add_variable_node_spec:
  "i < NUM_NODES \<Longrightarrow> add_variable_node status i calls = Some (status (variable_call i), calls @ [variable_call i])"
  by (simp add: Let_def add_variable_node_def variable_call_def vec_get_Some g_node_numeric_ids_def g_node_names_def NUM_NODES_def)

lemma add_variable_nodes_good:
  assumes "add_variable_nodes status is calls = Some (UA_STATUSCODE_GOOD, calls')" "\<forall>i \<in> set is. i < NUM_NODES"
  shows "calls' = calls @ map variable_call is"
  using assms
proof (induction "is" arbitrary: calls)
  case (Cons i "is")
  then have "add_variable_nodes status is (calls @ [variable_call i]) = Some (UA_STATUSCODE_GOOD, calls')"
    by (simp add: add_variable_node_spec split: if_splits)
  from Cons.IH [OF this] Cons.prems(2) show ?case by simp
qed simp

lemma add_variable_nodes_total:
  "\<forall>i \<in> set is. i < NUM_NODES \<Longrightarrow> (\<And>c. status c = UA_STATUSCODE_GOOD) \<Longrightarrow>
     \<exists>calls'. add_variable_nodes status is calls = Some (UA_STATUSCODE_GOOD, calls')"
  by (induction "is" arbitrary: calls) (simp_all add: add_variable_node_spec)

lemma information_model_total:
  "(\<And>c. status c = UA_STATUSCODE_GOOD) \<Longrightarrow> \<exists>calls'. information_model_init status calls = Some (UA_STATUSCODE_GOOD, calls')"
  by (simp add: information_model_init_def Let_def add_variable_nodes_total)

lemma data_source_init_spec:
  "data_source_init calls = Some (calls @ map (\<lambda>i. SetDataSource (CNC_NS_IDX, g_node_numeric_ids ! i) CNC_READ) [0..<NUM_NODES])"
  by (simp add: data_source_init_def register_sources_spec)

lemma node_idx_bound: "node_idx n < NUM_NODES"
  by (cases n) (simp_all add: NUM_NODES_def)

lemma numeric_ids_nth: "g_node_numeric_ids ! node_idx n = numeric_id n"
  by (cases n) (simp_all add: g_node_numeric_ids_def)

subsection \<open>Properties\<close>

text \<open>
  Every variable of the machine is a readable, not writable float: when the information model reports
  success and the data sources are registered, each node was added under its id with type Float and its own
  array index as context, has the read callback as its source, and reading it with that context gives a
  Float holding the value last published for it.\<close>

lemma nodes_are_readable_floats:
  assumes "information_model_init status [] = Some (UA_STATUSCODE_GOOD, calls)" "length (g_node_values ds) = NUM_NODES"
  shows "\<exists>calls' name attr ds1 dv. data_source_init calls = Some calls' \<and>
    AddVariableNode (CNC_NS_IDX, numeric_id n) (CNC_NS_IDX, 1000) HASCOMPONENT (CNC_NS_IDX, name) BASEDATAVARIABLETYPE attr (node_idx n)
      \<in> set calls' \<and> data_type attr = UA_FLOAT \<and> access_read attr \<and> \<not> access_write attr \<and>
    SetDataSource (CNC_NS_IDX, numeric_id n) CNC_READ \<in> set calls' \<and>
    data_source_set (node_idx n) v ds = Some ds1 \<and>
    cnc_read_callback True now (node_idx n) ds1 = Some (ds1, dv, UA_STATUSCODE_GOOD) \<and> encoded ds1 dv = Some (UA_FLOAT, v)"
proof -
  note idx = node_idx_bound [of n] numeric_ids_nth [of n]
  have "\<forall>i \<in> set [0..<NUM_NODES]. i < NUM_NODES" by simp
  with assms(1) have "set (map variable_call [0..<NUM_NODES]) \<subseteq> set calls"
    by (auto simp: information_model_init_def Let_def dest!: add_variable_nodes_good split: if_splits)
  then have var: "variable_call (node_idx n) \<in> set calls" using idx(1) by auto
  note src = data_source_init_spec [of calls]
  have "SetDataSource (CNC_NS_IDX, numeric_id n) CNC_READ \<in> set (map (\<lambda>i. SetDataSource (CNC_NS_IDX, g_node_numeric_ids ! i) CNC_READ) [0..<NUM_NODES])"
    using idx by (auto simp: image_iff intro!: bexI [of _ "node_idx n"])
  with var src show ?thesis
    using assms(2) idx
    by (simp add: variable_call_def data_source_set_def vec_set_Some cnc_read_callback_def vec_get_Some encoded_def) fastforce
qed

lemma nodes_are_readable_floats_example:
  "\<exists>calls calls' ds1 dv. information_model_init (\<lambda>_. 0) [] = Some (UA_STATUSCODE_GOOD, calls) \<and>
     data_source_init calls = Some calls' \<and> SetDataSource (2, 1009) CNC_READ \<in> set calls' \<and>
     cnc_read_callback True 7 8 ds1 = Some (ds1, dv, UA_STATUSCODE_GOOD) \<and> encoded ds1 dv = Some (UA_FLOAT, Fin 3)"
proof -
  obtain calls where c: "information_model_init (\<lambda>_. 0) [] = Some (UA_STATUSCODE_GOOD, calls)"
    using information_model_total [of "\<lambda>_. 0" "[]"] by (auto simp: UA_STATUSCODE_GOOD_def)
  have "length (g_node_values ds_new) = NUM_NODES" by (simp add: ds_new_def)
  from nodes_are_readable_floats [OF c this, of AXIS_Z "Fin 3" 7] c show ?thesis by (auto simp: CNC_NS_IDX_def)
qed

text \<open>
  C35. Both data sources serve the same: publishing and reading in any order, with every value encoded at once,
  each read of the copying source (as long as its heap copies can be allocated) and of the pooled source gives as
  Float the value last published for that node. When a copy cannot be allocated the copying source still
  reports success and a value, but there is none.\<close>

theorem pooled_source_equals_copying_source:
  assumes "\<forall>oper \<in> set ops. op_index oper < NUM_NODES" "data_source_init_opt ds_new calls = Some (pool, calls')"
  shows "\<exists>ds pool'. serve data_source_set read_naive ops ds_new = Some (ds, map (\<lambda>x. Some (UA_FLOAT, x)) (latest (replicate NUM_NODES (Fin 0)) ops)) \<and>
    serve data_source_set read_opt ops pool = Some (pool', map (\<lambda>x. Some (UA_FLOAT, x)) (latest (replicate NUM_NODES (Fin 0)) ops)) \<and>
    (\<forall>now i. i < NUM_NODES \<longrightarrow>
       (\<exists>dv. cnc_read_callback False now i ds = Some (ds, dv, UA_STATUSCODE_GOOD) \<and> hasValue dv \<and> encoded ds dv = None))"
proof -
  have n: "length (g_node_values ds_new) = NUM_NODES" "g_node_values ds_new = replicate NUM_NODES (Fin 0)" by (simp_all add: ds_new_def)
  have pool: "pool_ok pool" "g_node_values pool = replicate NUM_NODES (Fin 0)"
    using data_source_init_opt_ok [of calls] assms(2) by auto
  obtain ds where ds: "length (g_node_values ds) = NUM_NODES"
      "serve data_source_set read_naive ops ds_new = Some (ds, map (\<lambda>x. Some (UA_FLOAT, x)) (latest (replicate NUM_NODES (Fin 0)) ops))"
    using naive.serve_latest [OF n(1) assms(1)] unfolding n(2) by blast
  have "\<exists>dv. cnc_read_callback False now i ds = Some (ds, dv, UA_STATUSCODE_GOOD) \<and> hasValue dv \<and> encoded ds dv = None"
    if "i < NUM_NODES" for now i
    using that ds(1) by (simp add: cnc_read_callback_def vec_get_Some encoded_def)
  with ds(2) pooled.serve_latest [OF pool(1) assms(1)] show ?thesis unfolding pool(2) by blast
qed

theorem pooled_source_equals_copying_source_witness:
  "\<exists>pool calls ds pool'. data_source_init_opt ds_new [] = Some (pool, calls) \<and>
     serve data_source_set read_naive [Read 1 2, Publish 2 (Fin 5), Read 2 2] ds_new = Some (ds, [Some (UA_FLOAT, Fin 0), Some (UA_FLOAT, Fin 5)]) \<and>
     serve data_source_set read_opt [Read 1 2, Publish 2 (Fin 5), Read 2 2] pool = Some (pool', [Some (UA_FLOAT, Fin 0), Some (UA_FLOAT, Fin 5)])"
proof -
  obtain pool calls where "data_source_init_opt ds_new [] = Some (pool, calls)" by (rule data_source_init_opt_ok)
  moreover from pooled_source_equals_copying_source [OF _ this, of "[Read 1 2, Publish 2 (Fin 5), Read 2 2]"]
  have "\<exists>ds pool'. serve data_source_set read_naive [Read 1 2, Publish 2 (Fin 5), Read 2 2] ds_new = Some (ds, [Some (UA_FLOAT, Fin 0), Some (UA_FLOAT, Fin 5)]) \<and>
     serve data_source_set read_opt [Read 1 2, Publish 2 (Fin 5), Read 2 2] pool = Some (pool', [Some (UA_FLOAT, Fin 0), Some (UA_FLOAT, Fin 5)])"
    by (simp add: NUM_NODES_def) blast
  ultimately show ?thesis by blast
qed

text \<open>
  C36. The pooled source does not keep the values apart: a value read, but not yet encoded when the node is
  published and read again, is encoded as the later one; with the copying source it keeps what was read.\<close>

theorem pooled_read_changes_later:
  assumes "pool_ok ds" "i < NUM_NODES" "data_source_set i v ds = Some ds1"
  shows "\<exists>ds2 ds3 ds4 dv dv' dv2 dv2'. cnc_read_callback_opt t1 i ds1 = Some (ds2, dv, UA_STATUSCODE_GOOD) \<and> encoded ds2 dv = Some (UA_FLOAT, v) \<and>
    data_source_set i w ds2 = Some ds3 \<and> cnc_read_callback_opt t2 i ds3 = Some (ds4, dv2, UA_STATUSCODE_GOOD) \<and>
    encoded ds4 dv = Some (UA_FLOAT, w) \<and>
    cnc_read_callback True t1 i ds1 = Some (ds1, dv', UA_STATUSCODE_GOOD) \<and> cnc_read_callback True t2 i ds3 = Some (ds3, dv2', UA_STATUSCODE_GOOD) \<and>
    encoded ds3 dv' = Some (UA_FLOAT, v)"
  using assms
  by (auto simp: pool_ok_def data_source_set_def vec_set_Some vec_get_Some cnc_read_callback_opt_def cnc_read_callback_def encoded_def)

theorem pooled_read_changes_later_witness:
  "\<exists>pool calls ds1 ds2 ds3 ds4 dv dv' dv2. data_source_init_opt ds_new [] = Some (pool, calls) \<and>
     data_source_set 0 (Fin 20) pool = Some ds1 \<and> cnc_read_callback_opt 1 0 ds1 = Some (ds2, dv, UA_STATUSCODE_GOOD) \<and>
     encoded ds2 dv = Some (UA_FLOAT, Fin 20) \<and>
     data_source_set 0 (Fin 21) ds2 = Some ds3 \<and> cnc_read_callback_opt 2 0 ds3 = Some (ds4, dv2, UA_STATUSCODE_GOOD) \<and>
     encoded ds4 dv = Some (UA_FLOAT, Fin 21) \<and>
     cnc_read_callback True 1 0 ds1 = Some (ds1, dv', UA_STATUSCODE_GOOD) \<and> encoded ds3 dv' = Some (UA_FLOAT, Fin 20)"
proof -
  obtain pool calls where p: "data_source_init_opt ds_new [] = Some (pool, calls)" "pool_ok pool" by (rule data_source_init_opt_ok)
  have i: "0 < NUM_NODES" by (simp add: NUM_NODES_def)
  obtain ds1 where "data_source_set 0 (Fin 20) pool = Some ds1" using pooled.set_law [OF p(2) i] by blast
  with pooled_read_changes_later [OF p(2) i this, of 1 "Fin 21" 2] p(1) show ?thesis by blast
qed

end
