(* ===== verification/Cnc_Update_Loop.thy ===== *)
theory Cnc_Update_Loop
  imports Cnc_Data_Source
begin

text \<open>
  The simulated machine of the OPC UA server (\<^verbatim>\<open>telemetry_sim.c\<close>), the timer thread that publishes its values
  (\<^verbatim>\<open>update_loop.c\<close>) and the start of the server. The generator \<^verbatim>\<open>rand_r\<close> is a parameter that returns a number
  up to \<^verbatim>\<open>RAND_MAX\<close> and the next seed. The noise and all published values
  are of type \<open>double\<close>, where the logarithm of zero is minus infinity; the other intermediate results are real numbers. The
  literals have the exact values of the floats and doubles they denote; rounding is not modelled.
\<close>

subsection \<open>telemetry_params.h\<close>

definition VIB_A :: real where "VIB_A = 5 / 2"
definition VIB_OMEGA :: real where "VIB_OMEGA = 2 * M_PI * 50"
definition VIB_SIGMA :: real where "VIB_SIGMA = 13421773 / 134217728"
definition TEMP_AMBIENT :: real where "TEMP_AMBIENT = 22"
definition TEMP_DELTA :: real where "TEMP_DELTA = 45"
definition TEMP_TAU :: real where "TEMP_TAU = 120"
definition TEMP_SIGMA :: real where "TEMP_SIGMA = 13421773 / 268435456"
definition RPM_BASE :: real where "RPM_BASE = 3000"
definition RPM_SIGMA :: real where "RPM_SIGMA = 5"
definition TORQUE_BASE :: real where "TORQUE_BASE = 12"
definition TORQUE_SIGMA :: real where "TORQUE_SIGMA = 13421773 / 67108864"
definition TORQUE_OMEGA :: real where "TORQUE_OMEGA = 2 * M_PI * 2"
definition AXIS_RANGE :: real where "AXIS_RANGE = 50"
definition AXIS_FREQ :: real where "AXIS_FREQ = 3602879701896397 / 36028797018963968"

subsection \<open>telemetry_sim.c\<close>

definition RAND_MAX :: nat where
  "RAND_MAX = 2147483647"

definition box_muller :: "(u32 \<Rightarrow> nat \<times> u32) \<Rightarrow> u32 \<Rightarrow> double \<times> u32" where
  "box_muller rand_r seed =
     (let (r1, seed) = rand_r seed;
          u1 = (real r1 + 1) / (real RAND_MAX + 2);
          (r2, seed) = rand_r seed;
          u2 = real r2 / (real RAND_MAX + 1)
      in (dmul (dsqrt (dmul (Fin (- 2)) (dlog (Fin u1)))) (Fin (cos (2 * M_PI * u2))), seed))"

definition telemetry_vibration :: "(u32 \<Rightarrow> nat \<times> u32) \<Rightarrow> real \<Rightarrow> nat \<Rightarrow> u32 \<Rightarrow> double \<times> u32" where
  "telemetry_vibration rand_r t axis_idx seed =
     (let phase = real axis_idx * (2 * M_PI / 3);
          signal = VIB_A * sin (VIB_OMEGA * t + phase);
          (z, seed) = box_muller rand_r seed;
          noise = dmul (Fin VIB_SIGMA) z
      in (dadd (Fin signal) noise, seed))"

definition telemetry_temperature :: "(u32 \<Rightarrow> nat \<times> u32) \<Rightarrow> real \<Rightarrow> u32 \<Rightarrow> double \<times> u32" where
  "telemetry_temperature rand_r t seed =
     (let transient = TEMP_DELTA * (1 - exp (- t / TEMP_TAU));
          (z, seed) = box_muller rand_r seed;
          noise = dmul (Fin TEMP_SIGMA) z
      in (dadd (Fin (TEMP_AMBIENT + transient)) noise, seed))"

definition telemetry_spindle_speed :: "(u32 \<Rightarrow> nat \<times> u32) \<Rightarrow> real \<Rightarrow> u32 \<Rightarrow> double \<times> u32" where
  "telemetry_spindle_speed rand_r t seed =
     (let (z, seed) = box_muller rand_r seed in (dadd (Fin RPM_BASE) (dmul (Fin RPM_SIGMA) z), seed))"

definition telemetry_torque :: "(u32 \<Rightarrow> nat \<times> u32) \<Rightarrow> real \<Rightarrow> u32 \<Rightarrow> double \<times> u32" where
  "telemetry_torque rand_r t seed =
     (let variation = TORQUE_BASE * (3602879701896397 / 36028797018963968) * sin (TORQUE_OMEGA * t);
          (z, seed) = box_muller rand_r seed;
          noise = dmul (Fin TORQUE_SIGMA) z
      in (dadd (Fin (TORQUE_BASE + variation)) noise, seed))"

definition telemetry_axis_position :: "real \<Rightarrow> nat \<Rightarrow> double" where
  "telemetry_axis_position t axis_idx =
     (let phase = real axis_idx * (M_PI / 6) in Fin (AXIS_RANGE * sin (2 * M_PI * AXIS_FREQ * t + phase)))"

subsection \<open>update_loop.c\<close>

record itimerspec =
  it_interval :: "int \<times> int"
  it_value :: "int \<times> int"

text \<open>The timer is a descriptor with its setting, while it is open.\<close>

record update_state =
  g_running :: bool
  g_tick_count :: u64
  g_seeds :: "u32 list"
  tick :: u64
  thread_joinable :: bool
  overruns :: "u64 list"
  timer :: "itimerspec option"
  warnings :: "string list"

definition ul_new :: update_state where
  "ul_new =
     \<lparr>g_running = False, g_tick_count = 0,
      g_seeds = [0xDEAD, 0xBEEF, 0xCAFE, 0xBABE, 0xFACE, 0xD00D, 0xF00D, 0xACE1, 0xB00B],
      tick = 0, thread_joinable = False, overruns = [], timer = None, warnings = []\<rparr>"

text \<open>One publication of a noisy value: the seed of the node is used and replaced.\<close>

definition publish_noisy ::
  "nat \<Rightarrow> (u32 \<Rightarrow> double \<times> u32) \<Rightarrow> u32 list \<times> data_source \<Rightarrow> (u32 list \<times> data_source) option" where
  "publish_noisy i f sd =
     (case sd of (seeds, ds) \<Rightarrow> do {
        seed \<leftarrow> vec_get seeds i;
        let (v, seed) = f seed;
        seeds \<leftarrow> vec_set seeds i seed;
        ds \<leftarrow> data_source_set i v ds;
        Some (seeds, ds)
      })"

definition update_all_nodes :: "(u32 \<Rightarrow> nat \<times> u32) \<Rightarrow> real \<Rightarrow> u32 list \<times> data_source \<Rightarrow> (u32 list \<times> data_source) option" where
  "update_all_nodes rand_r t_s sd = do {
     sd \<leftarrow> publish_noisy (node_idx SPINDLE_TEMP) (telemetry_temperature rand_r t_s) sd;
     sd \<leftarrow> publish_noisy (node_idx SPINDLE_TORQUE) (telemetry_torque rand_r t_s) sd;
     sd \<leftarrow> publish_noisy (node_idx SPINDLE_SPEED) (telemetry_spindle_speed rand_r t_s) sd;
     sd \<leftarrow> publish_noisy (node_idx VIBRATION_X) (telemetry_vibration rand_r t_s 0) sd;
     sd \<leftarrow> publish_noisy (node_idx VIBRATION_Y) (telemetry_vibration rand_r t_s 1) sd;
     (seeds, ds) \<leftarrow> publish_noisy (node_idx VIBRATION_Z) (telemetry_vibration rand_r t_s 2) sd;
     ds \<leftarrow> data_source_set (node_idx AXIS_X) (telemetry_axis_position t_s 0) ds;
     ds \<leftarrow> data_source_set (node_idx AXIS_Y) (telemetry_axis_position t_s 1) ds;
     ds \<leftarrow> data_source_set (node_idx AXIS_Z) (telemetry_axis_position t_s 2) ds;
     Some (seeds, ds)
   }"

text \<open>
  One turn of the thread's loop; the input is what reading the timer gave: the number of expirations,
  or nothing if no eight bytes were read (the timer is non-blocking). Lines written to the standard error
  stream are kept as the numbers of missed ticks.
\<close>

definition update_turn ::
  "(u32 \<Rightarrow> nat \<times> u32) \<Rightarrow> update_state \<times> data_source \<Rightarrow> u64 option \<Rightarrow> (update_state \<times> data_source) option" where
  "update_turn rand_r ud reading =
     (case ud of (ul, ds) \<Rightarrow>
        if \<not> g_running ul then Some (ul, ds)
        else
          case reading of
            None \<Rightarrow> Some (ul, ds)
          | Some e \<Rightarrow> do {
              let ul = (if 1 < e then ul\<lparr>overruns := overruns ul @ [e - 1]\<rparr> else ul);
              let ul = ul\<lparr>tick := tick ul + e\<rparr>;
              let t_s = real (unat (tick ul)) * (1152921504606847 / 1152921504606846976);
              (seeds, ds) \<leftarrow> update_all_nodes rand_r t_s (g_seeds ul, ds);
              Some (ul\<lparr>g_seeds := seeds, g_tick_count := tick ul\<rparr>, ds)
            })"

text \<open>
  The thread: \<open>tfd\<close> is the descriptor of the new timer (negative if there is none), and \<open>readings\<close> are what
  reading it gives, turn by turn. The result of setting the timer is not looked at.
\<close>

definition update_thread ::
  "(u32 \<Rightarrow> nat \<times> u32) \<Rightarrow> int \<Rightarrow> u64 option list \<Rightarrow> update_state \<times> data_source \<Rightarrow> (update_state \<times> data_source) option" where
  "update_thread rand_r tfd readings ud =
     (case ud of (ul, ds) \<Rightarrow>
        if tfd < 0 then Some (ul\<lparr>warnings := warnings ul @ [''timerfd_create'']\<rparr>, ds)
        else do {
          let ts = \<lparr>it_interval = (0, 1000000), it_value = (0, 1000000)\<rparr>;
          let ul = ul\<lparr>timer := Some ts\<rparr>;
          let ul = ul\<lparr>tick := 0\<rparr>;
          (ul, ds) \<leftarrow> fold_opt (update_turn rand_r) (ul, ds) readings;
          Some (if g_running ul then ul else ul\<lparr>timer := None\<rparr>, ds)
        })"

definition EPERM :: int where
  "EPERM = 1"

text \<open>
  \<open>sched\<close> is what \<^verbatim>\<open>pthread_setschedparam\<close> returns, and the value of \<^verbatim>\<open>errno\<close> after the call.
\<close>

definition update_loop_start :: "bool \<Rightarrow> int \<times> int \<Rightarrow> update_state \<Rightarrow> int \<times> update_state" where
  "update_loop_start created sched ul =
     (let ul = ul\<lparr>g_running := True\<rparr>;
          ul = ul\<lparr>g_tick_count := 0\<rparr>
      in if \<not> created then (- 1, ul\<lparr>warnings := warnings ul @ [''pthread_create'']\<rparr>)
         else
           let ul = ul\<lparr>thread_joinable := True\<rparr>;
               ul = (if fst sched \<noteq> 0 \<and> snd sched \<noteq> EPERM
                     then ul\<lparr>warnings := warnings ul @ [''pthread_setschedparam'']\<rparr> else ul)
           in (0, ul))"

definition update_loop_stop :: "update_state \<Rightarrow> update_state" where
  "update_loop_stop ul = ul\<lparr>g_running := False, thread_joinable := False\<rparr>"

definition update_loop_tick_count :: "update_state \<Rightarrow> u64" where
  "update_loop_tick_count ul = g_tick_count ul"

subsection \<open>server_main.c\<close>

record ua_config =
  maxSecureChannels :: nat
  maxSessions :: nat
  publishing_min_ms :: real
  publishing_max_ms :: real

definition MAX_SECURE_CHANNELS :: nat where "MAX_SECURE_CHANNELS = 100"
definition MAX_SESSIONS :: nat where "MAX_SESSIONS = 50"

definition configure :: "ua_config \<Rightarrow> ua_config" where
  "configure config =
     (let config = config\<lparr>maxSecureChannels := MAX_SECURE_CHANNELS\<rparr>;
          config = config\<lparr>maxSessions := MAX_SESSIONS\<rparr>;
          config = config\<lparr>publishing_min_ms := 10\<rparr>
      in config\<lparr>publishing_max_ms := 5000\<rparr>)"

text \<open>
  The start of the server: the exit code if it ends before serving, or what runs while it serves. The
  library's default configuration is an input.
\<close>

definition server_start ::
  "ua_config \<Rightarrow> (ua_call \<Rightarrow> nat) \<Rightarrow> bool \<Rightarrow> int \<times> int \<Rightarrow> (int + ua_config \<times> ua_call list \<times> update_state) option" where
  "server_start defaults status created sched =
     (let config = configure defaults
      in case information_model_init status [] of
           None \<Rightarrow> None
         | Some (sc, calls) \<Rightarrow>
             if sc \<noteq> UA_STATUSCODE_GOOD then Some (Inl 1)
             else
               case data_source_init calls of
                 None \<Rightarrow> None
               | Some calls \<Rightarrow>
                   (case update_loop_start created sched ul_new of
                      (rc, ul) \<Rightarrow> if rc \<noteq> 0 then Some (Inl 1) else Some (Inr (config, calls, ul))))"

text \<open>After the server's loop has ended: the exit code, and the update thread stopped and joined.\<close>

definition server_end :: "update_state \<Rightarrow> int \<times> update_state" where
  "server_end ul = (let ul = update_loop_stop ul in (0, ul))"

subsection \<open>Specification\<close>

text \<open>The physical range of each published value: it is finite and within its bounds.\<close>

fun value_range :: "cnc_node_id \<Rightarrow> real \<Rightarrow> bool" where
  "value_range SPINDLE_TEMP v \<longleftrightarrow> 21.6 \<le> v \<and> v \<le> 67.4"
| "value_range SPINDLE_TORQUE v \<longleftrightarrow> 9.3 \<le> v \<and> v \<le> 14.7"
| "value_range SPINDLE_SPEED v \<longleftrightarrow> 2965 \<le> v \<and> v \<le> 3035"
| "value_range VIBRATION_X v \<longleftrightarrow> \<bar>v\<bar> \<le> 3.3"
| "value_range VIBRATION_Y v \<longleftrightarrow> \<bar>v\<bar> \<le> 3.3"
| "value_range VIBRATION_Z v \<longleftrightarrow> \<bar>v\<bar> \<le> 3.3"
| "value_range AXIS_X v \<longleftrightarrow> \<bar>v\<bar> \<le> 50"
| "value_range AXIS_Y v \<longleftrightarrow> \<bar>v\<bar> \<le> 50"
| "value_range AXIS_Z v \<longleftrightarrow> \<bar>v\<bar> \<le> 50"

definition node_range :: "cnc_node_id \<Rightarrow> double \<Rightarrow> bool" where
  "node_range n d \<longleftrightarrow> (case d of Fin v \<Rightarrow> value_range n v | _ \<Rightarrow> False)"

definition expirations :: "u64 option list \<Rightarrow> u64 list" where
  "expirations readings = map the (filter (\<lambda>r. r \<noteq> None) readings)"

subsection \<open>Lemmas\<close>

lemma scaled_abs_le: "\<bar>x\<bar> \<le> b \<Longrightarrow> 0 \<le> a \<Longrightarrow> \<bar>a * x\<bar> \<le> a * b" for a :: real
  by (simp add: abs_mult mult_left_mono)

lemma ln2_bound: "ln 2 \<le> (3 / 4 :: real)"
proof -
  have "2 \<le> 1 + 3 / 4 + (3 / 4 :: real)\<^sup>2 / 2" by (simp add: power2_eq_square)
  also have "\<dots> \<le> exp (3 / 4)" by (rule exp_lower_Taylor_quadratic) simp
  finally show ?thesis by (metis exp_gt_zero ln_exp ln_le_cancel_iff zero_less_numeral)
qed

text \<open>The normal noise is finite and bounded, since its uniform source stays away from zero.\<close>

lemma box_muller_bound:
  assumes "\<And>s. fst (rand_r s) \<le> RAND_MAX"
  shows "\<exists>z. fst (box_muller rand_r seed) = Fin z \<and> z \<le> 7 \<and> - 7 \<le> z"
proof -
  define r1 where "r1 = fst (rand_r seed)"
  let ?u = "(real r1 + 1) / (real RAND_MAX + 2)"
  have r1: "r1 \<le> RAND_MAX" unfolding r1_def by (rule assms)
  have pos: "0 < ?u" by simp
  have "ln (real RAND_MAX + 2) \<le> ln (2 ^ 32 :: real)" by (simp add: RAND_MAX_def)
  also have "\<dots> = 32 * ln 2" by (subst ln_realpow) simp_all
  also have "\<dots> \<le> 32 * (3 / 4)" using ln2_bound by simp
  finally have "ln (real RAND_MAX + 2) \<le> 24" by simp
  moreover have "ln ?u = ln (real r1 + 1) - ln (real RAND_MAX + 2)" by (rule ln_divide_pos) simp_all
  moreover have "0 \<le> ln (real r1 + 1)" by simp
  ultimately have "- 2 * ln ?u \<le> 49" by linarith
  then have "sqrt (- 2 * ln ?u) \<le> sqrt (7\<^sup>2)"
    by (intro real_sqrt_le_mono) simp
  then have s: "sqrt (- 2 * ln ?u) \<le> 7" by simp
  have "ln ?u \<le> 0" using r1 by (intro ln_le_zero_iff [THEN iffD2]) simp_all
  then have s0: "0 \<le> - 2 * ln ?u" "0 \<le> sqrt (- 2 * ln ?u)" by simp_all
  have "\<bar>sqrt (- 2 * ln ?u) * cos c\<bar> \<le> 7 * 1" for c
    unfolding abs_mult using s s0(2) by (intro mult_mono) simp_all
  moreover have "\<exists>c. fst (box_muller rand_r seed) = Fin (sqrt (- 2 * ln ?u) * cos c)"
    using pos s0(1) by (simp add: box_muller_def split_beta Let_def flip: r1_def) blast
  ultimately show ?thesis by (metis abs_le_iff minus_le_iff mult.right_neutral)
qed

lemma sine_bound: "0 \<le> a \<Longrightarrow> \<bar>a * sin x\<bar> \<le> a" for a :: real
  using scaled_abs_le [OF abs_sin_le_one, of a x] by simp

lemma simulated_ranges:
  assumes "\<And>s. fst (rand_r s) \<le> RAND_MAX"
  shows "0 \<le> t \<Longrightarrow> node_range SPINDLE_TEMP (fst (telemetry_temperature rand_r t seed))"
    "node_range SPINDLE_TORQUE (fst (telemetry_torque rand_r t seed))"
    "node_range SPINDLE_SPEED (fst (telemetry_spindle_speed rand_r t seed))"
    "n \<in> {VIBRATION_X, VIBRATION_Y, VIBRATION_Z} \<Longrightarrow> node_range n (fst (telemetry_vibration rand_r t axis seed))"
    "n \<in> {AXIS_X, AXIS_Y, AXIS_Z} \<Longrightarrow> node_range n (telemetry_axis_position t axis)"
proof -
  obtain z where bm: "fst (box_muller rand_r seed) = Fin z" and z: "z \<le> 7" "- 7 \<le> z"
    using box_muller_bound [of rand_r seed, OF assms] by blast
  show "node_range SPINDLE_SPEED (fst (telemetry_spindle_speed rand_r t seed))"
    using z by (simp add: node_range_def telemetry_spindle_speed_def split_beta bm RPM_BASE_def RPM_SIGMA_def)
  have "\<bar>50 * sin (2 * M_PI * AXIS_FREQ * t + real axis * (M_PI / 6))\<bar> \<le> 50" by (rule sine_bound) simp
  then show "n \<in> {AXIS_X, AXIS_Y, AXIS_Z} \<Longrightarrow> node_range n (telemetry_axis_position t axis)"
    by (auto simp: node_range_def telemetry_axis_position_def AXIS_RANGE_def Let_def)
  have "\<bar>VIB_A * sin (VIB_OMEGA * t + real axis * (2 * M_PI / 3))\<bar> \<le> 5 / 2"
    using sine_bound [of VIB_A] by (simp add: VIB_A_def)
  moreover have "\<bar>VIB_SIGMA * z\<bar> \<le> 8 / 10" using z by (simp add: VIB_SIGMA_def abs_le_iff)
  ultimately have "\<bar>VIB_A * sin (VIB_OMEGA * t + real axis * (2 * M_PI / 3)) + VIB_SIGMA * z\<bar> \<le> 33 / 10" by linarith
  then show "n \<in> {VIBRATION_X, VIBRATION_Y, VIBRATION_Z} \<Longrightarrow> node_range n (fst (telemetry_vibration rand_r t axis seed))"
    by (auto simp: node_range_def telemetry_vibration_def Let_def split_beta bm)
  define w where "w = sin (TORQUE_OMEGA * t)"
  have "w \<le> 1" "- 1 \<le> w" by (simp_all add: w_def)
  then show "node_range SPINDLE_TORQUE (fst (telemetry_torque rand_r t seed))"
    using z by (simp add: node_range_def telemetry_torque_def split_beta Let_def bm TORQUE_BASE_def TORQUE_SIGMA_def flip: w_def)
  assume "0 \<le> t"
  define x where "x = exp (- (t / TEMP_TAU))"
  have "x \<le> 1" "0 < x" using \<open>0 \<le> t\<close> by (simp_all add: x_def TEMP_TAU_def)
  then show "node_range SPINDLE_TEMP (fst (telemetry_temperature rand_r t seed))"
    using z by (simp add: node_range_def telemetry_temperature_def split_beta Let_def bm TEMP_DELTA_def TEMP_SIGMA_def TEMP_AMBIENT_def flip: x_def)
qed

lemma publish_noisy_spec:
  assumes "i < length seeds" "i < length (g_node_values ds)"
  shows "publish_noisy i f (seeds, ds) =
    Some (seeds[i := snd (f (seeds ! i))], ds\<lparr>g_node_values := (g_node_values ds)[i := fst (f (seeds ! i))]\<rparr>)"
  using assms by (simp add: publish_noisy_def vec_get_Some vec_set_Some data_source_set_def split_beta)

lemma update_all_nodes_spec:
  assumes rand: "\<And>s. fst (rand_r s) \<le> RAND_MAX" and "0 \<le> t" "length seeds = NUM_NODES" "length (g_node_values ds) = NUM_NODES"
  shows "\<exists>seeds' ds'. update_all_nodes rand_r t (seeds, ds) = Some (seeds', ds') \<and> length seeds' = NUM_NODES \<and>
    length (g_node_values ds') = NUM_NODES \<and> (\<forall>n. node_range n (g_node_values ds' ! node_idx n))"
proof -
  note ranges = simulated_ranges [of rand_r, OF rand]
  have len: "length seeds = 9" "length (g_node_values ds) = 9" using assms(3,4) by (simp_all add: NUM_NODES_def)
  show ?thesis
    using ranges(1) [OF assms(2)] ranges(2-5)
    by (simp add: update_all_nodes_def publish_noisy_spec len data_source_set_def vec_set_Some all_nodes NUM_NODES_def)
qed

text \<open>The invariant of the running thread after some readings of its timer.\<close>

definition loop_ok :: "u64 option list \<Rightarrow> update_state \<times> data_source \<Rightarrow> bool" where
  "loop_ok readings ud \<longleftrightarrow>
     (case ud of (ul, ds) \<Rightarrow>
        g_running ul \<and> length (g_seeds ul) = NUM_NODES \<and> length (g_node_values ds) = NUM_NODES \<and>
        tick ul = sum_list (expirations readings) \<and> g_tick_count ul = tick ul \<and>
        overruns ul = map (\<lambda>e. e - 1) (filter (\<lambda>e. 1 < e) (expirations readings)) \<and>
        (expirations readings = [] \<or> (\<forall>n. node_range n (g_node_values ds ! node_idx n))))"

lemma expirations_snoc: "expirations (rs @ [r]) = expirations rs @ (case r of None \<Rightarrow> [] | Some e \<Rightarrow> [e])"
  by (cases r) (simp_all add: expirations_def)

lemma loop_ok_turn:
  assumes rand: "\<And>s. fst (rand_r s) \<le> RAND_MAX" and ok: "loop_ok rs (ul, ds)"
  shows "\<exists>ud. update_turn rand_r (ul, ds) r = Some ud \<and> loop_ok (rs @ [r]) ud"
proof (cases r)
  case (Some e)
  let ?t = "real (unat (tick ul + e)) * (1152921504606847 / 1152921504606846976)"
  have t: "0 \<le> ?t" by (intro mult_nonneg_nonneg of_nat_0_le_iff) simp
  have len: "length (g_seeds ul) = NUM_NODES" "length (g_node_values ds) = NUM_NODES" using ok by (simp_all add: loop_ok_def)
  obtain seeds' ds' where "update_all_nodes rand_r ?t (g_seeds ul, ds) = Some (seeds', ds')" "length seeds' = NUM_NODES"
      "length (g_node_values ds') = NUM_NODES" "\<forall>n. node_range n (g_node_values ds' ! node_idx n)"
    using update_all_nodes_spec [of rand_r ?t "g_seeds ul" ds, OF rand t len] by blast
  with ok Some show ?thesis by (simp add: update_turn_def loop_ok_def expirations_snoc Let_def)
qed (use ok in \<open>simp add: update_turn_def loop_ok_def expirations_snoc\<close>)

lemma loop_ok_run:
  assumes "\<And>s. fst (rand_r s) \<le> RAND_MAX" "loop_ok [] ud0"
  shows "\<exists>ud. fold_opt (update_turn rand_r) ud0 rs = Some ud \<and> loop_ok rs ud"
proof (induction rs rule: rev_induct)
  case (snoc r rs)
  then obtain ul ds where "fold_opt (update_turn rand_r) ud0 rs = Some (ul, ds)" "loop_ok rs (ul, ds)" by auto
  with loop_ok_turn [of rand_r rs ul ds r, OF assms(1)] show ?case by (auto simp: fold_opt_append)
qed (use assms(2) in simp)

subsection \<open>Properties\<close>

text \<open>
  C37. The update thread started by the server, with a timer of its own, keeps the count of elapsed timer ticks (modulo
  two to the power 64), reports every overrun, and after its first expiration all nine published values are finite
  and within their physical ranges, whatever the random generator draws between 0 and \<^verbatim>\<open>RAND_MAX\<close>: the logarithm
  of the noise is never taken of zero.\<close>

theorem update_loop_publishes_in_range:
  assumes "\<And>s. fst (rand_r s) \<le> RAND_MAX" "server_start defaults status True sched = Some (Inr (config, calls, ul0))" "0 \<le> tfd"
  shows "\<exists>ul ds. update_thread rand_r tfd readings (ul0, ds_new) = Some (ul, ds) \<and>
    update_loop_tick_count ul = sum_list (expirations readings) \<and>
    overruns ul = map (\<lambda>e. e - 1) (filter (\<lambda>e. 1 < e) (expirations readings)) \<and>
    (expirations readings = [] \<or> (\<forall>n. node_range n (g_node_values ds ! node_idx n)))"
proof -
  have "ul0 = snd (update_loop_start True sched ul_new)"
    using assms(2) by (auto simp: server_start_def update_loop_start_def Let_def split: option.splits if_splits)
  then have "loop_ok [] (ul0\<lparr>timer := Some \<lparr>it_interval = (0, 1000000), it_value = (0, 1000000)\<rparr>, tick := 0\<rparr>, ds_new)"
    by (simp add: loop_ok_def update_loop_start_def ul_new_def ds_new_def expirations_def NUM_NODES_def Let_def)
  from loop_ok_run [of rand_r, OF assms(1) this, of readings] show ?thesis
    using assms(3) by (fastforce simp: update_thread_def loop_ok_def update_loop_tick_count_def)
qed

theorem update_loop_publishes_in_range_witness:
  "\<exists>config calls ul0 ul ds. server_start \<lparr>maxSecureChannels = 40, maxSessions = 100, publishing_min_ms = 100, publishing_max_ms = 3600000\<rparr> (\<lambda>_. 0) True (0, 0) = Some (Inr (config, calls, ul0)) \<and>
     update_thread (\<lambda>s. (unat s mod 2147483648, s + 1)) 5 [Some 1, None, Some 3] (ul0, ds_new) = Some (ul, ds) \<and>
     update_loop_tick_count ul = 4 \<and> overruns ul = [2] \<and> node_range SPINDLE_TEMP (g_node_values ds ! 0)"
proof -
  let ?r = "\<lambda>s :: u32. (unat s mod 2147483648, s + 1)"
  have r: "fst (?r s) \<le> RAND_MAX" for s
    using mod_less_divisor [of 2147483648 "unat s"] by (simp add: RAND_MAX_def)
  have "\<exists>config calls ul0. server_start \<lparr>maxSecureChannels = 40, maxSessions = 100, publishing_min_ms = 100, publishing_max_ms = 3600000\<rparr> (\<lambda>_. 0) True (0, 0) = Some (Inr (config, calls, ul0))"
    using information_model_total [of "\<lambda>_. 0" "[]"]
    by (auto simp: server_start_def data_source_init_spec update_loop_start_def UA_STATUSCODE_GOOD_def)
  then obtain config calls ul0 where s: "server_start \<lparr>maxSecureChannels = 40, maxSessions = 100, publishing_min_ms = 100, publishing_max_ms = 3600000\<rparr> (\<lambda>_. 0) True (0, 0) = Some (Inr (config, calls, ul0))" by blast
  have e: "expirations [Some 1, None, Some 3] = [1, 3]" by (simp add: expirations_def)
  obtain ul ds where "update_thread ?r 5 [Some 1, None, Some 3] (ul0, ds_new) = Some (ul, ds)"
      "update_loop_tick_count ul = sum_list [1, 3]" "overruns ul = map (\<lambda>e. e - 1) (filter (\<lambda>e. 1 < e) [1, 3])"
      "\<forall>n. node_range n (g_node_values ds ! node_idx n)"
    using update_loop_publishes_in_range [of ?r, OF r s, of 5 "[Some 1, None, Some 3]", unfolded e] by auto
  moreover from this(4) have "node_range SPINDLE_TEMP (g_node_values ds ! node_idx SPINDLE_TEMP)" by blast
  ultimately show ?thesis using s by auto
qed

text \<open>
  Without a timer the start still succeeds, and nothing is ever published; and a refused priority is
  reported although it was meant to be passed over, since the call returns its error and leaves \<^verbatim>\<open>errno\<close> alone.\<close>

lemma missing_timer_unnoticed:
  "tfd < 0 \<Longrightarrow> \<exists>ul. update_thread rand_r tfd readings (snd (update_loop_start True sched ul_new), ds_new) = Some (ul, ds_new) \<and>
     fst (update_loop_start True sched ul_new) = 0 \<and> update_loop_tick_count ul = 0"
  by (simp add: update_thread_def update_loop_start_def update_loop_tick_count_def Let_def)

lemma unprivileged_start_warns:
  "warnings (snd (update_loop_start True (EPERM, 0) ul_new)) = [''pthread_setschedparam'']"
  by (simp add: update_loop_start_def EPERM_def ul_new_def Let_def)

text \<open>Start and end of the server: stopped and joined, with the exit code 0.\<close>

lemma server_end_stops:
  "server_end ul = (rc, ul') \<Longrightarrow> rc = 0 \<and> \<not> g_running ul' \<and> \<not> thread_joinable ul'"
  by (auto simp: server_end_def update_loop_stop_def Let_def)

end
