(* ===== verification/Benchmark_Tools.thy ===== *)
theory Benchmark_Tools
  imports Cnc_Data_Source Doubles
begin

text \<open>
  The benchmark of the OPC UA server: the client that logs the latency of every notification
  (\<^verbatim>\<open>scripts/benchmark_client.py\<close>) and the report on its log (\<^verbatim>\<open>scripts/generate_report.py\<close>). The OPC UA library, the
  formatting of numbers and their conversion back, and NumPy's percentiles are parameters. Tasks of the client change only while others
  wait, and the steps here may come in any order, which allows more.
\<close>

subsection \<open>benchmark_client.py\<close>

definition bench_CNC_NS :: nat where
  "bench_CNC_NS = 2"

definition bench_NODE_IDS :: "nat list" where
  "bench_NODE_IDS = [1001, 1002, 1003, 1004, 1005, 1006, 1007, 1008, 1009]"

text \<open>A row of the log: the node, the latency and the time of the server, in milliseconds.\<close>

type_synonym sample = "string \<times> real \<times> real"

record bench =
  queue :: "sample list"
  log_rows :: "string list list"
  done_set :: bool
  drain_returned :: bool

definition bench_start :: bench where
  "bench_start =
     \<lparr>queue = [], log_rows = [[''node_id'', ''latency_ms'', ''server_ts_ms'']], done_set = False, drain_returned = False\<rparr>"

text \<open>
  A notification: the node, the time of its arrival in nanoseconds, and the time of the source in seconds,
  which may be missing.
\<close>

definition datachange_notification :: "string \<Rightarrow> int \<Rightarrow> real option \<Rightarrow> bench \<Rightarrow> bench" where
  "datachange_notification node recv_ns src_ts b =
     (case src_ts of
        None \<Rightarrow> b
      | Some ts \<Rightarrow>
          let src_ms = ts * 1000;
              rtt_ms = of_int recv_ns / 10 ^ 6 - src_ms
          in b\<lparr>queue := queue b @ [(node, rtt_ms, src_ms)]\<rparr>)"

text \<open>One turn of the loop that writes the log; \<open>fmt\<close> formats with three decimals.\<close>

definition drain_turn :: "(real \<Rightarrow> string) \<Rightarrow> bench \<Rightarrow> bench" where
  "drain_turn fmt b =
     (if drain_returned b then b
      else if \<not> done_set b \<or> queue b \<noteq> [] then
        case queue b of
          [] \<Rightarrow> b
        | (node_id, rtt_ms, src_ms) # rest \<Rightarrow>
            b\<lparr>queue := rest, log_rows := log_rows b @ [[node_id, fmt rtt_ms, fmt src_ms]]\<rparr>
      else b\<lparr>drain_returned := True\<rparr>)"

datatype bench_event = Notify string int "real option" | Drain | Finished

text \<open>The event \<open>Finished\<close>: all subscribers have returned, and the log may be closed.\<close>

fun bench_step :: "(real \<Rightarrow> string) \<Rightarrow> bench_event \<Rightarrow> bench \<Rightarrow> bench" where
  "bench_step fmt (Notify node recv_ns src_ts) b = datachange_notification node recv_ns src_ts b"
| "bench_step fmt Drain b = drain_turn fmt b"
| "bench_step fmt Finished b = b\<lparr>done_set := True\<rparr>"

subsection \<open>generate_report.py\<close>

text \<open>
  The latencies of a log, which the library reads as one dictionary per row; a row without the column or
  with another text in it is passed over.
\<close>

fun load_latencies :: "(string \<Rightarrow> real option) \<Rightarrow> (string \<rightharpoonup> string) list \<Rightarrow> real list" where
  "load_latencies to_float [] = []"
| "load_latencies to_float (row # rows) =
     (case row ''latency_ms'' of
        None \<Rightarrow> load_latencies to_float rows
      | Some txt \<Rightarrow>
          (case to_float txt of
             None \<Rightarrow> load_latencies to_float rows
           | Some x \<Rightarrow> x # load_latencies to_float rows))"

record latency_report =
  lr_label :: string
  lr_n :: nat
  lr_p50 :: real
  lr_p95 :: real
  lr_p99 :: real
  lr_max :: real

definition latency_report_of :: "(real list \<Rightarrow> nat \<Rightarrow> real) \<Rightarrow> string \<Rightarrow> real list \<Rightarrow> latency_report" where
  "latency_report_of percentile label arr =
     \<lparr>lr_label = label, lr_n = length arr, lr_p50 = percentile arr 50, lr_p95 = percentile arr 95,
      lr_p99 = percentile arr 99, lr_max = Max (set arr)\<rparr>"

text \<open>NumPy's division of its floats does not raise.\<close>

definition np_divide :: "real \<Rightarrow> real \<Rightarrow> double" where
  "np_divide a b =
     (if b \<noteq> 0 then Fin (a / b) else if a = 0 then NaN else if 0 < a then PInf else NInf)"

text \<open>
  The report: the exit code, and unless there was no data the rows of the table, the improvement if there
  are two, and the verdict.
\<close>

definition report_main ::
  "(real list \<Rightarrow> nat \<Rightarrow> real) \<Rightarrow> (string \<Rightarrow> real option) \<Rightarrow> (string \<rightharpoonup> string) list \<Rightarrow> (string \<rightharpoonup> string) list option \<Rightarrow>
   int \<times> (latency_report list \<times> double option \<times> bool) option" where
  "report_main percentile to_float naive_csv opt_csv =
     (let naive_arr = load_latencies to_float naive_csv
      in if length naive_arr = 0 then (1, None)
         else
           let rows = [latency_report_of percentile ''Naive (UA_Variant_setScalarCopy)'' naive_arr];
               rows = (case opt_csv of
                   None \<Rightarrow> rows
                 | Some csv \<Rightarrow>
                     let opt_arr = load_latencies to_float csv
                     in if 0 < length opt_arr
                        then rows @ [latency_report_of percentile ''Optimised (pre-allocated pool)'' opt_arr] else rows);
               p99_pass = (0 < length naive_arr \<and> percentile naive_arr 99 < 3);
               improvement = (if length rows = 2 then Some (np_divide (lr_p99 (rows ! 0)) (lr_p99 (rows ! 1))) else None)
           in (if p99_pass then 0 else 1, Some (rows, improvement, p99_pass)))"

subsection \<open>Specification\<close>

text \<open>The row owed for a notification.\<close>

fun owed :: "(real \<Rightarrow> string) \<Rightarrow> bench_event \<Rightarrow> string list list" where
  "owed fmt (Notify node recv_ns (Some ts)) = [[node, fmt (of_int recv_ns / 10 ^ 6 - ts * 1000), fmt (ts * 1000)]]"
| "owed fmt _ = []"

fun is_notify :: "bench_event \<Rightarrow> bool" where
  "is_notify (Notify _ _ _) = True"
| "is_notify _ = False"

text \<open>The dictionaries of the data rows of a log.\<close>

definition dict_rows :: "string list list \<Rightarrow> (string \<rightharpoonup> string) list" where
  "dict_rows logged = (case logged of [] \<Rightarrow> [] | header # rows \<Rightarrow> map (\<lambda>r. map_of (zip header r)) rows)"

subsection \<open>Lemmas\<close>

definition pending :: "(real \<Rightarrow> string) \<Rightarrow> bench \<Rightarrow> string list list" where
  "pending fmt b = map (\<lambda>(n, r, s). [n, fmt r, fmt s]) (queue b)"

text \<open>Nothing is lost and nothing is written twice: the log and the queue together are the rows owed.\<close>

lemma bench_step_log:
  "log_rows (bench_step fmt e b) @ pending fmt (bench_step fmt e b) = log_rows b @ pending fmt b @ owed fmt e"
proof (cases e)
  case (Notify node recv src)
  then show ?thesis by (cases src) (simp_all add: datachange_notification_def pending_def Let_def)
next
  case Drain
  then show ?thesis by (auto simp: drain_turn_def pending_def split: list.splits)
qed (simp add: pending_def)

lemma bench_log:
  "log_rows (fold (bench_step fmt) es b) @ pending fmt (fold (bench_step fmt) es b) =
     log_rows b @ pending fmt b @ concat (map (owed fmt) es)"
  by (induction es arbitrary: b) (simp_all add: bench_step_log)

text \<open>If nothing arrives once the subscribers have returned, the writer returns with an empty queue.\<close>

definition drained :: "bench \<Rightarrow> bool" where
  "drained b \<longleftrightarrow> (drain_returned b \<longrightarrow> done_set b \<and> queue b = [])"

lemma drained_step:
  "drained b \<Longrightarrow> done_set b \<longrightarrow> \<not> is_notify e \<Longrightarrow> drained (bench_step fmt e b)"
  by (cases e) (auto simp: drained_def drain_turn_def datachange_notification_def Let_def split: list.splits option.splits)

lemma done_mono: "done_set b \<Longrightarrow> done_set (bench_step fmt e b)"
  by (cases e) (auto simp: drain_turn_def datachange_notification_def Let_def split: list.splits option.splits)

lemma drained_after_done:
  "drained b \<Longrightarrow> \<forall>e \<in> set es. \<not> is_notify e \<Longrightarrow> drained (fold (bench_step fmt) es b)"
  by (induction es arbitrary: b) (simp_all add: drained_step)

lemma drained_before_done:
  assumes "drained b" "\<not> done_set b" "Finished \<notin> set es"
  shows "drained (fold (bench_step fmt) es b) \<and> \<not> done_set (fold (bench_step fmt) es b)"
  using assms
proof (induction es arbitrary: b)
  case (Cons e es)
  have "\<not> done_set (bench_step fmt e b)"
    using Cons.prems by (cases e) (auto simp: drain_turn_def datachange_notification_def Let_def split: list.splits option.splits)
  then show ?case using Cons drained_step [of b e fmt] by simp
qed simp

subsection \<open>Properties\<close>

text \<open>
  The log is complete: if notifications end before the subscribers return, a writer that has returned has
  written one row for every notification with a source time, in order, after the header.\<close>

lemma benchmark_log_complete:
  assumes "Finished \<notin> set es1" "\<forall>e \<in> set es2. \<not> is_notify e"
    and "b = fold (bench_step fmt) (es1 @ Finished # es2) bench_start" "drain_returned b"
  shows "log_rows b = [''node_id'', ''latency_ms'', ''server_ts_ms''] # concat (map (owed fmt) es1)"
proof -
  have start: "drained bench_start" "\<not> done_set bench_start" by (simp_all add: drained_def bench_start_def)
  have "drained (fold (bench_step fmt) es1 bench_start)"
    using drained_before_done [OF start assms(1)] by blast
  then have "drained (bench_step fmt Finished (fold (bench_step fmt) es1 bench_start))"
    by (auto simp: drained_def)
  then have "drained b" using drained_after_done [OF _ assms(2)] by (simp add: assms(3))
  then have "pending fmt b = []" using assms(4) by (simp add: drained_def pending_def)
  moreover have "owed fmt e = []" if "\<not> is_notify e" for e using that by (cases e) simp_all
  then have "concat (map (owed fmt) es2) = []" using assms(2) by auto
  ultimately show ?thesis
    using bench_log [of fmt "es1 @ Finished # es2" bench_start] by (simp add: assms(3) bench_start_def pending_def)
qed

text \<open>The report counts them all, if a formatted number can be converted back.\<close>

lemma load_latencies_rows:
  assumes "\<forall>x. to_float (fmt x) = Some (rounded x)"
  shows "length (load_latencies to_float (dict_rows ([''node_id'', ''latency_ms'', ''server_ts_ms''] # concat (map (owed fmt) es)))) =
    length (concat (map (owed fmt) es))"
proof -
  have row: "load_latencies to_float (map (\<lambda>r. map_of (zip [''node_id'', ''latency_ms'', ''server_ts_ms''] r)) (owed fmt e @ rs)) =
      map (\<lambda>r. the (to_float (r ! 1))) (owed fmt e) @
      load_latencies to_float (map (\<lambda>r. map_of (zip [''node_id'', ''latency_ms'', ''server_ts_ms''] r)) rs)" for e rs
    using assms by (cases "(fmt, e)" rule: owed.cases) auto
  show ?thesis by (induction es) (simp_all add: dict_rows_def row del: map_append)
qed

text \<open>The verdict is on the copying build alone, whatever the log of the other one holds.\<close>

lemma report_verdict:
  "fst (report_main percentile to_float naive opt) = 0 \<longleftrightarrow>
     load_latencies to_float naive \<noteq> [] \<and> percentile (load_latencies to_float naive) 99 < 3"
  by (simp add: report_main_def Let_def)

lemma report_counts_notifications:
  assumes "Finished \<notin> set es1" "\<forall>e \<in> set es2. \<not> is_notify e" "\<forall>x. to_float (fmt x) = Some (rounded x)"
    and "b = fold (bench_step fmt) (es1 @ Finished # es2) bench_start" "drain_returned b"
    and "report_main percentile to_float (dict_rows (log_rows b)) None = (rc, Some (rows, imp, pass))"
  shows "map lr_n rows = [length (concat (map (owed fmt) es1))]"
  using assms(6) load_latencies_rows [OF assms(3), of es1] benchmark_log_complete [OF assms(1,2,4,5)]
  by (auto simp: report_main_def latency_report_of_def Let_def split: if_splits)

text \<open>The nodes it subscribes to are the nodes of the server.\<close>

lemma bench_nodes_exist: "bench_CNC_NS = CNC_NS_IDX \<and> bench_NODE_IDS = g_node_numeric_ids"
  by (simp add: bench_CNC_NS_def bench_NODE_IDS_def CNC_NS_IDX_def g_node_numeric_ids_def)

end
