(* ===== verification/Spec2Isabelle.thy ===== *)
theory Spec2Isabelle
  imports Spsc_Concurrent State_Manager_Concurrent Async_Main Token_Issuer Daemon_Main Distributed_System
    Hls_Solver Hil_Control Cnc_Update_Loop Benchmark_Tools
begin

text \<open>
  \<^bold>\<open>A verification of the edge telemetry programs\<close>

  The repository holds five programs. The \<^emph>\<open>edge daemon\<close> (\<^verbatim>\<open>include/\<close>, \<^verbatim>\<open>src/\<close>) reads a sensor on a producer
  thread, passes the frames through a lock-free ring to its main loop, which smooths and supervises them, and
  publishes a state machine on D-Bus. The \<^emph>\<open>telemetry server\<close> (\<^verbatim>\<open>async_telemetry_server/\<close>) receives samples in
  a binary frame protocol from authenticated clients, over TCP or TLS, and stores them in a database through a
  connection pool; a small service issues the tokens. The \<^emph>\<open>distributed node\<close> (\<^verbatim>\<open>secure_distributed_node/\<close>) runs the daemon's signal path as a gRPC
  worker, polled by a coordinator under mutual TLS. The \<^emph>\<open>power electronics simulator\<close>
  (\<^verbatim>\<open>fpga_power_electronics_hil/\<close>) solves a converter circuit, as C++, as FPGA kernel and as Python
  model, which a current controller and a modulator drive in a closed loop. The \<^emph>\<open>OPC UA server\<close>
  (\<^verbatim>\<open>opcua_edge_server/\<close>) publishes a simulated machine, and
  comes with a benchmark.

  \<^bold>\<open>Conventions\<close>

  \<^item> A class is a record, a method a function from its state to the new state. Fixed-width integers are
    words, \<^verbatim>\<open>size_t\<close> counters that only count elements are natural numbers.
  \<^item> Undefined behaviour (an index out of range, signed overflow) is \<^const>\<open>None\<close>, or \<open>Undef\<close> with the state reached in the
    theory \<open>Outcome\<close>; an exception is \<^const>\<open>Inl\<close>, or \<open>Throw\<close>. Theorems that promise a result show that it exists.
  \<^item> Numbers of type \<^verbatim>\<open>double\<close> are exact reals; in the signal path with infinities and not-a-number,
    and in what the OPC UA server publishes (\<open>Doubles\<close>), in the circuit simulators as plain reals. Rounding is not modelled.
  \<^item> Clocks, random draws, files, the network and the libraries (sd-bus, libpqxx, jwt-cpp, OpenSSL, gRPC,
    open62541, SciPy, NumPy) are arguments of the definitions. What is assumed of them stands in the theorems.
  \<^item> Threads are modelled by the order of their atomic steps, with sequential consistency.

  \<^bold>\<open>Theories\<close>

  \<^item> \<open>Edge_Prelude\<close>, \<open>Doubles\<close>, \<open>Outcome\<close>: partial operations of the language, running an operation over a list,
    reachability and invariants; the numbers; a state monad with exceptions, blocking and undefined behaviour, and
    its rules for postconditions.
  \<^item> \<open>Signal_Filters\<close> (\<^verbatim>\<open>MovingAverageFilter\<close>, \<^verbatim>\<open>ThresholdDetector\<close>, \<^verbatim>\<open>DataProcessor\<close>): the interface of a filter as
    a locale, interpreted for both filters; outputs are the mean of the last samples and the alarm of the current run;
    a non-finite sample spoils the mean for good.
  \<^item> \<open>Telemetry_Receiver\<close>, \<open>Spsc_Concurrent\<close> (\<^verbatim>\<open>TelemetryReceiver\<close>): the ring refines a bounded queue; under every
    interleaving of the atomic steps of one producer and one consumer nothing is lost, reordered or raced on.
  \<^item> \<open>State_Manager\<close>, \<open>State_Manager_Concurrent\<close> (\<^verbatim>\<open>StateManager\<close>): the methods refine the documented machine; with
    overlapping calls, and callbacks that come and go, the transitions stay linear and are announced once while the
    callbacks are installed, though not always in their order; the one way in which a finished shutdown can be undone
    is exhibited and characterised.
  \<^item> \<open>Telemetry_Sources\<close>, \<open>Daemon_Bus\<close>, \<open>Daemon_Main\<close> (\<^verbatim>\<open>FileSource\<close>, \<^verbatim>\<open>SimulatedSource\<close>, \<^verbatim>\<open>DaemonBus\<close>, \<^verbatim>\<open>main.cpp\<close>): the sources
    behind a common locale; the bus with its table of methods, its worker and its life cycle; the composed daemon raises the fault it
    should; while no two operations of its threads overlap its signals are a run of the machine and it ends with
    everything closed.
  \<^item> \<open>Frame_Protocol\<close> (\<^verbatim>\<open>FrameProtocol\<close>, \<^verbatim>\<open>SensorFrame\<close>): encoding and decoding are inverse, the check value is the
    remainder of a polynomial division, bursts are detected, and the size computation wraps near four gigabytes.
  \<^item> \<open>Db_Pool\<close> (\<^verbatim>\<open>DbPool\<close>, \<^verbatim>\<open>TelemetryRepository\<close>): permits of the pool over success, failure and reconnect, sharing of
    connections between threads; statements run one after the other up to the first that fails.
  \<^item> \<open>Session_Server\<close>, \<open>Session_Correct\<close>, \<open>Telemetry_Client\<close>, \<open>Async_Main\<close> (\<^verbatim>\<open>JwtValidator\<close>, \<^verbatim>\<open>TcpServer\<close>, \<^verbatim>\<open>TlsServer\<close>,
    \<^verbatim>\<open>TelemetryClient\<close>): whole sessions against any database; nothing is stored without authentication, exactly what is committed
    is acknowledged, memory safety below the wrap-around, both servers act alike, what the client sends for which answers;
    the configuration, the construction of the servers and the accept loops around the sessions.
  \<^item> \<open>Token_Issuer\<close> (\<^verbatim>\<open>token_issuer/main.py\<close>): from credentials over the token to telemetry that the TLS server
    stores under the client's identifier.
  \<^item> \<open>Command_Line\<close>, \<open>Telemetry_Node\<close>, \<open>Telemetry_Coordinator\<close> (\<^verbatim>\<open>TelemetryNode\<close>, \<^verbatim>\<open>TelemetryCoordinator\<close>, \<^verbatim>\<open>TlsCredentials\<close>, the two
    \<^verbatim>\<open>main\<close> functions): the snapshots a node keeps, what the health answer means, the common certificate authority,
    the programs up to their end.
  \<^item> \<open>Distributed_System\<close>: nodes and coordinator together; after a round of polls the health answer is the state of
    the nodes.
  \<^item> \<open>Lu_Solver\<close>, \<open>Vsc_Network\<close>, \<open>Hls_Solver\<close> (\<^verbatim>\<open>vsc_solver/\<close>, \<^verbatim>\<open>hls_solver/\<close>): elimination with partial pivoting solves
    every system it factorises and needs no exchange for the circuit's dominant matrices; each step satisfies
    Kirchhoff's law and the trapezoidal rule; a call of the FPGA kernel, in its host build, is a step of the
    network with the grid source built into the kernel.
  \<^item> \<open>Hil_Model\<close>, \<open>Hil_Control\<close> (\<^verbatim>\<open>hil/\<close>): the Python model and the C++ solver compute the same simulation, since the
    circuit's equations have one solution; the closed loop completes, never short-circuits a leg and stays within
    its clamps; the default carrier is only ever sampled at zero; the settling time is the first in range.
  \<^item> \<open>Cnc_Data_Source\<close>, \<open>Cnc_Update_Loop\<close> (\<^verbatim>\<open>opcua_edge_server/src/\<close>): the data sources behind a common locale; registered
    nodes are readable floats, the pooled source equals the copying one when values are encoded at once, published
    values are finite and stay in range; the server's configuration, start and end.
  \<^item> \<open>Benchmark_Tools\<close> (\<^verbatim>\<open>opcua_edge_server/scripts/\<close>): the log holds a row for every notification, and the report
    counts them all.

  \<^bold>\<open>Loops and bounds\<close>

  The session loops end because every turn consumes input: they are total functions on the bytes still to
  come. The main loop's drain is a \<^theory_text>\<open>partial_function\<close> that is shown to return. Endless loops (producers,
  polling, streaming, the workers) are given by their body, run for every number of turns; the control loop runs
  the given number of steps. Sizes are those of the code:
  1023 frames in the ring, 256 snapshots, 9 circuit nodes; the solver is generic in the dimension.

  \<^bold>\<open>Not modelled\<close>

  \<^item> The coroutine scheduler, TLS and certificate handling inside OpenSSL and gRPC, the HTTP server, signal
    delivery and scheduling: they decide only when a modelled operation runs.
  \<^item> \<^verbatim>\<open>Concepts.h\<close>: compile-time requirements on types.
  \<^item> Rounding of floating-point and the fixed-point format of the synthesised kernel; memory orders weaker
    than sequential consistency.
  \<^item> Of the Python programs the command lines, the parsing of HTTP requests and CSV files by their libraries, and
    the wording of the benchmark report; the assertions of the tests; deployment files.
\<close>

end
